theory Spec2Isabelle
  imports Complex_Main "HOL-Library.Word"
begin

unbundle bit_operations_syntax

section \<open>Lanczos image resizing: a model of the resize and filters packages\<close>

text \<open>
  The Go packages \<^verbatim>\<open>internal/filters\<close> and \<^verbatim>\<open>internal/resize\<close> are embedded
  function by function. Conventions of the embedding:
  \<^item> \<^verbatim>\<open>float64\<close> is \<open>real\<close>: rounding, infinities and NaN are not modelled;
  \<^item> \<^verbatim>\<open>int\<close> is \<open>int\<close>: sizes never come near 64 bits;
  \<^item> \<^verbatim>\<open>uint8\<close>, \<^verbatim>\<open>uint16\<close>, \<^verbatim>\<open>uint32\<close> are words of that width;
  \<^item> a run-time panic is a value \<open>Inl p\<close>; a normal return of
    \<^verbatim>\<open>(*image.NRGBA, error)\<close> is \<open>Inr (img, err)\<close> with both components optional,
    \<open>None\<close> standing for \<^verbatim>\<open>nil\<close>;
  \<^item> the parameter \<^verbatim>\<open>filter\<close> of the source is written \<open>flt\<close>;
  \<^item> the types and functions of the standard library that the packages use
    (\<^verbatim>\<open>image\<close>, \<^verbatim>\<open>image/color\<close>, \<^verbatim>\<open>image/draw\<close>) are modelled as far as the
    packages observe them.
\<close>

subsection \<open>Conversions of the language\<close>

text \<open>\<^verbatim>\<open>int(x)\<close> on a float64 drops the fraction, rounding towards zero.\<close>

definition go_int :: "real \<Rightarrow> int" where
  "go_int x = (if 0 \<le> x then \<lfloor>x\<rfloor> else \<lceil>x\<rceil>)"

text \<open>
  \<^verbatim>\<open>uint16(x)\<close> on a float64: the truncated value. The source converts clamped
  values only; outside of \<open>[0, 65535]\<close>, where Go leaves the result to the
  implementation, the model wraps.
\<close>

definition go_uint16 :: "real \<Rightarrow> 16 word" where
  "go_uint16 x = word_of_int (go_int x)"

datatype panic = IndexOutOfRange | MakeSliceLenOutOfRange | NilPointerDereference

subsection \<open>filters: sinc and the Lanczos kernel\<close>

definition sinc :: "real \<Rightarrow> real" where
  "sinc v = (if v = 0 then 1 else sin (pi * v) / (pi * v))"

text \<open>
  \<^verbatim>\<open>Resampler\<close> is an interface with the single method \<^verbatim>\<open>Kernel\<close>. \<^verbatim>\<open>Lanczos\<close> is the
  implementation of the package; \<open>OtherResampler\<close> stands for any other implementation,
  given by its kernel function.
\<close>

datatype Resampler = Lanczos (Radius: int) | OtherResampler "real \<Rightarrow> real"

definition NewLanczos :: "int \<Rightarrow> Resampler" where
  "NewLanczos radius = Lanczos radius"

fun Kernel :: "Resampler \<Rightarrow> real \<Rightarrow> real" where
  "Kernel (Lanczos radius) v =
     (let v = \<bar>v\<bar> in
      if v < real_of_int radius then sinc v * sinc (v / real_of_int radius) else 0)"
| "Kernel (OtherResampler k) v = k v"

subsection \<open>resize: the weight table\<close>

text \<open>
  The local variables \<^verbatim>\<open>scale\<close>, \<^verbatim>\<open>filterRadius\<close>, \<^verbatim>\<open>support\<close>,
  \<^verbatim>\<open>weightsPerPixel\<close>, \<^verbatim>\<open>center\<close>, \<^verbatim>\<open>left\<close> and \<^verbatim>\<open>right\<close> of
  \<^verbatim>\<open>calculateWeights\<close>, each as a function of what it is computed from. The two passes
  compute \<^verbatim>\<open>scale\<close>, \<^verbatim>\<open>center\<close>, \<^verbatim>\<open>support\<close>, \<^verbatim>\<open>left\<close> and \<^verbatim>\<open>right\<close> again with
  the same statements.
\<close>

definition scale_of :: "int \<Rightarrow> int \<Rightarrow> real" where
  "scale_of srcSize dstSize = real_of_int srcSize / real_of_int dstSize"

definition filterRadius_of :: "Resampler \<Rightarrow> real" where
  "filterRadius_of flt = (case flt of Lanczos radius \<Rightarrow> real_of_int radius | _ \<Rightarrow> 1)"

definition support_of :: "real \<Rightarrow> real \<Rightarrow> real" where
  "support_of filterRadius scale = (if scale > 1 then filterRadius * scale else filterRadius)"

definition weightsPerPixel_of :: "real \<Rightarrow> int" where
  "weightsPerPixel_of support = go_int (2 * support) + 1"

definition center_of :: "real \<Rightarrow> int \<Rightarrow> real" where
  "center_of scale dstIdx = (real_of_int dstIdx + 0.5) * scale - 0.5"

definition left_of :: "real \<Rightarrow> real \<Rightarrow> int" where
  "left_of center support = (let left = go_int (center - support) in if left < 0 then 0 else left)"

definition right_of :: "int \<Rightarrow> real \<Rightarrow> real \<Rightarrow> int" where
  "right_of srcSize center support =
     (let right = go_int (center + support) in if right \<ge> srcSize then srcSize - 1 else right)"

text \<open>
  The loop over \<^verbatim>\<open>srcIdx\<close> of \<^verbatim>\<open>calculateWeights\<close>: \<open>row\<close> is \<^verbatim>\<open>weights[dstIdx]\<close>;
  a store beyond its length is the panic of Go's bounds check.
\<close>

function weights_loop ::
  "Resampler \<Rightarrow> real \<Rightarrow> real \<Rightarrow> int \<Rightarrow> int \<Rightarrow> nat \<Rightarrow> real list \<Rightarrow> real
     \<Rightarrow> panic + (real list \<times> real)" where
  "weights_loop flt scale center right srcIdx weightIdx row weightSum =
     (if srcIdx \<le> right then
        (let distance = real_of_int srcIdx - center;
             weight = (if scale > 1 then Kernel flt (distance / scale)
                       else Kernel flt distance)
         in if weight \<noteq> 0 then
              (if weightIdx < length row
               then weights_loop flt scale center right (srcIdx + 1) (weightIdx + 1)
                      (row[weightIdx := weight]) (weightSum + weight)
               else Inl IndexOutOfRange)
            else weights_loop flt scale center right (srcIdx + 1) (weightIdx + 1)
                   row weightSum)
      else Inr (row, weightSum))"
  by pat_completeness auto
termination
  by (relation "measure (\<lambda>(flt, scale, center, right, srcIdx, rest). nat (right + 1 - srcIdx))")
    auto

declare weights_loop.simps [simp del]

text \<open>One iteration of the loop over \<^verbatim>\<open>dstIdx\<close>: the row of one destination index.\<close>

definition weights_row :: "int \<Rightarrow> int \<Rightarrow> Resampler \<Rightarrow> int \<Rightarrow> panic + real list" where
  "weights_row srcSize dstSize flt dstIdx =
     (let scale = scale_of srcSize dstSize;
          support = support_of (filterRadius_of flt) scale;
          weightsPerPixel = weightsPerPixel_of support;
          center = center_of scale dstIdx;
          left = left_of center support;
          right = right_of srcSize center support
      in if weightsPerPixel < 0 then Inl MakeSliceLenOutOfRange
         else
           (case weights_loop flt scale center right left 0
                   (replicate (nat weightsPerPixel) 0) 0 of
              Inl p \<Rightarrow> Inl p
            | Inr (row, weightSum) \<Rightarrow>
                Inr (if weightSum > 0 then map (\<lambda>w. w / weightSum) row else row)))"

fun weights_rows :: "int \<Rightarrow> int \<Rightarrow> Resampler \<Rightarrow> int list \<Rightarrow> panic + real list list" where
  "weights_rows srcSize dstSize flt [] = Inr []"
| "weights_rows srcSize dstSize flt (dstIdx # rest) =
     (case weights_row srcSize dstSize flt dstIdx of
        Inl p \<Rightarrow> Inl p
      | Inr row \<Rightarrow>
          (case weights_rows srcSize dstSize flt rest of
             Inl p \<Rightarrow> Inl p
           | Inr rows \<Rightarrow> Inr (row # rows)))"

text \<open>\<^verbatim>\<open>calculateWeights\<close>: \<open>Inr None\<close> is the \<^verbatim>\<open>nil\<close> table.\<close>

definition calculateWeights ::
  "int \<Rightarrow> int \<Rightarrow> Resampler \<Rightarrow> panic + real list list option" where
  "calculateWeights srcSize dstSize flt =
     (if srcSize \<le> 0 \<or> dstSize \<le> 0 then Inr None
      else (case weights_rows srcSize dstSize flt [0 .. dstSize - 1] of
              Inl p \<Rightarrow> Inl p
            | Inr weights \<Rightarrow> Inr (Some weights)))"

subsection \<open>image/color of the standard library\<close>

text \<open>
  A \<^verbatim>\<open>color.Color\<close> is modelled by what its only method \<^verbatim>\<open>RGBA\<close> returns: four
  \<^verbatim>\<open>uint32\<close> values (red, green, blue, alpha).
\<close>

type_synonym rgba = "32 word \<times> 32 word \<times> 32 word \<times> 32 word"

datatype NRGBA = NRGBA (R8: "8 word") (G8: "8 word") (B8: "8 word") (A8: "8 word")

datatype NRGBA64 = NRGBA64 (R16: "16 word") (G16: "16 word") (B16: "16 word") (A16: "16 word")

text \<open>The channel computation of \<^verbatim>\<open>color.NRGBA.RGBA\<close>.\<close>

definition nrgba_channel :: "8 word \<Rightarrow> 8 word \<Rightarrow> 32 word" where
  "nrgba_channel c alpha =
     (let r = (ucast c :: 32 word);
          r = r OR push_bit 8 r;
          r = r * ucast alpha
      in r div 0xff)"

definition NRGBA_RGBA :: "NRGBA \<Rightarrow> rgba" where
  "NRGBA_RGBA c =
     (let a = (ucast (A8 c) :: 32 word)
      in (nrgba_channel (R8 c) (A8 c), nrgba_channel (G8 c) (A8 c),
          nrgba_channel (B8 c) (A8 c), a OR push_bit 8 a))"

text \<open>\<^verbatim>\<open>color.NRGBA64.RGBA\<close>.\<close>

definition nrgba64_channel :: "16 word \<Rightarrow> 16 word \<Rightarrow> 32 word" where
  "nrgba64_channel c alpha = ((ucast c :: 32 word) * ucast alpha) div 0xffff"

definition NRGBA64_RGBA :: "NRGBA64 \<Rightarrow> rgba" where
  "NRGBA64_RGBA c =
     (nrgba64_channel (R16 c) (A16 c), nrgba64_channel (G16 c) (A16 c),
      nrgba64_channel (B16 c) (A16 c), ucast (A16 c))"

text \<open>
  The conversion of \<^verbatim>\<open>color.NRGBAModel\<close>, on the values of \<^verbatim>\<open>RGBA\<close>: what
  \<^verbatim>\<open>(*image.NRGBA).Set\<close> and \<^verbatim>\<open>draw.Draw\<close> store into the 8-bit pixels of an
  \<^verbatim>\<open>image.NRGBA\<close>.
\<close>

definition nrgbaModel :: "rgba \<Rightarrow> NRGBA" where
  "nrgbaModel c =
     (case c of (r, g, b, a) \<Rightarrow>
        if a = 0xffff then
          NRGBA (ucast (drop_bit 8 r)) (ucast (drop_bit 8 g)) (ucast (drop_bit 8 b)) 0xff
        else if a = 0 then NRGBA 0 0 0 0
        else
          (let r = (r * 0xffff) div a;
               g = (g * 0xffff) div a;
               b = (b * 0xffff) div a
           in NRGBA (ucast (drop_bit 8 r)) (ucast (drop_bit 8 g)) (ucast (drop_bit 8 b))
                (ucast (drop_bit 8 a))))"

subsection \<open>image and image/draw of the standard library\<close>

record Rectangle =
  MinX :: int
  MinY :: int
  MaxX :: int
  MaxY :: int

definition Dx :: "Rectangle \<Rightarrow> int" where
  "Dx r = MaxX r - MinX r"

definition Dy :: "Rectangle \<Rightarrow> int" where
  "Dy r = MaxY r - MinY r"

text \<open>\<^verbatim>\<open>image.Rect\<close> orders the coordinates it is given.\<close>

definition Rect :: "int \<Rightarrow> int \<Rightarrow> int \<Rightarrow> int \<Rightarrow> Rectangle" where
  "Rect x0 y0 x1 y1 =
     \<lparr>MinX = (if x0 > x1 then x1 else x0), MinY = (if y0 > y1 then y1 else y0),
      MaxX = (if x0 > x1 then x0 else x1), MaxY = (if y0 > y1 then y0 else y1)\<rparr>"

definition In :: "int \<times> int \<Rightarrow> Rectangle \<Rightarrow> bool" where
  "In p r = (MinX r \<le> fst p \<and> fst p < MaxX r \<and> MinY r \<le> snd p \<and> snd p < MaxY r)"

text \<open>An \<^verbatim>\<open>*image.NRGBA\<close>: its rectangle and its 8-bit pixels, by coordinates.\<close>

record NRGBAImage =
  NRect :: Rectangle
  Pix :: "int \<times> int \<Rightarrow> NRGBA"

definition NewNRGBA :: "Rectangle \<Rightarrow> NRGBAImage" where
  "NewNRGBA r = \<lparr>NRect = r, Pix = (\<lambda>p. NRGBA 0 0 0 0)\<rparr>"

definition NRGBAAt :: "NRGBAImage \<Rightarrow> int \<Rightarrow> int \<Rightarrow> NRGBA" where
  "NRGBAAt img x y = (if In (x, y) (NRect img) then Pix img (x, y) else NRGBA 0 0 0 0)"

text \<open>\<^verbatim>\<open>(*image.NRGBA).Set\<close> with a colour given by its \<^verbatim>\<open>RGBA\<close> values.\<close>

definition NRGBASet :: "NRGBAImage \<Rightarrow> int \<Rightarrow> int \<Rightarrow> rgba \<Rightarrow> NRGBAImage" where
  "NRGBASet img x y c =
     (if In (x, y) (NRect img) then img\<lparr>Pix := (Pix img)((x, y) := nrgbaModel c)\<rparr> else img)"

text \<open>
  An \<^verbatim>\<open>image.Image\<close> is an interface value, and \<^verbatim>\<open>draw.Draw\<close> looks at its dynamic
  type. It is either an \<^verbatim>\<open>*image.NRGBA\<close>, or an image of another type, given by its
  methods \<^verbatim>\<open>Bounds\<close> and \<^verbatim>\<open>At\<close>, the colours by their \<^verbatim>\<open>RGBA\<close> values.
  \<open>At img x y\<close> is \<^verbatim>\<open>img.At(x, y).RGBA()\<close>.
\<close>

datatype Image =
  NRGBAPointer NRGBAImage
| OtherImage Rectangle "int \<Rightarrow> int \<Rightarrow> rgba"

fun Bounds :: "Image \<Rightarrow> Rectangle" where
  "Bounds (NRGBAPointer img) = NRect img"
| "Bounds (OtherImage r f) = r"

fun At :: "Image \<Rightarrow> int \<Rightarrow> int \<Rightarrow> rgba" where
  "At (NRGBAPointer img) x y = NRGBA_RGBA (NRGBAAt img x y)"
| "At (OtherImage r f) x y = f x y"

text \<open>An \<^verbatim>\<open>*image.NRGBA\<close> passed where an \<^verbatim>\<open>image.Image\<close> is expected.\<close>

definition asImage :: "NRGBAImage \<Rightarrow> Image" where
  "asImage img = NRGBAPointer img"

text \<open>
  \<^verbatim>\<open>draw.Draw(dst, r, src, sp, draw.Src)\<close> into an \<^verbatim>\<open>*image.NRGBA\<close>: every point of \<open>r\<close>
  that lies in \<open>dst\<close> and whose source point, \<open>sp\<close> aligned with the corner of \<open>r\<close>,
  lies in \<open>src\<close>, is replaced by the source pixel. From an \<^verbatim>\<open>*image.NRGBA\<close> source the
  four bytes of the pixel are copied as they are; from a source of another type the
  colour is converted to the pixel format of \<open>dst\<close> by \<^verbatim>\<open>color.NRGBAModel\<close>.
\<close>

definition source_pixel :: "Image \<Rightarrow> int \<Rightarrow> int \<Rightarrow> NRGBA" where
  "source_pixel src sx sy =
     (case src of
        NRGBAPointer s \<Rightarrow> Pix s (sx, sy)
      | OtherImage r f \<Rightarrow> nrgbaModel (f sx sy))"

definition Draw :: "NRGBAImage \<Rightarrow> Rectangle \<Rightarrow> Image \<Rightarrow> int \<times> int \<Rightarrow> NRGBAImage" where
  "Draw dst r src sp =
     dst\<lparr>Pix := (\<lambda>p.
        let sx = fst p - MinX r + fst sp; sy = snd p - MinY r + snd sp
        in if In p r \<and> In p (NRect dst) \<and> In (sx, sy) (Bounds src)
           then source_pixel src sx sy else Pix dst p)\<rparr>"

subsection \<open>resize: the two passes\<close>

text \<open>
  The errors of the package, by their messages: "source image is nil", "invalid
  dimensions: width=..., height=...", "failed to calculate weights for vertical resize"
  and "failed to calculate weights for horizontal resize".
\<close>

datatype error =
    SourceImageIsNil
  | InvalidDimensions int int
  | FailedWeightsVertical
  | FailedWeightsHorizontal

type_synonym accumulators = "real \<times> real \<times> real \<times> real"

text \<open>
  The loop over the source pixels of one destination pixel, the same in both passes:
  \<open>srcAt\<close> reads the source pixel at an index along the axis of the pass, and
  \<open>add_weighted\<close> is the four additions for one source pixel. The second component
  of the state is a log of the indices at which the loop has read a source pixel; it is
  not a variable of the source.
\<close>

definition add_weighted ::
  "accumulators \<times> int list \<Rightarrow> int \<Rightarrow> rgba \<Rightarrow> real \<Rightarrow> accumulators \<times> int list" where
  "add_weighted st srcIdx srcColor weight =
     (case st of ((r, g, b, a), reads) \<Rightarrow>
        (case srcColor of (srcR, srcG, srcB, srcA) \<Rightarrow>
           ((r + real (unat srcR) * weight, g + real (unat srcG) * weight,
             b + real (unat srcB) * weight, a + real (unat srcA) * weight),
            reads @ [srcIdx])))"

function accumulate ::
  "(int \<Rightarrow> rgba) \<Rightarrow> real list \<Rightarrow> int \<Rightarrow> int \<Rightarrow> nat \<Rightarrow> accumulators \<times> int list
     \<Rightarrow> accumulators \<times> int list" where
  "accumulate srcAt pixelWeights right srcIdx weightIdx st =
     (if srcIdx \<le> right \<and> weightIdx < length pixelWeights then
        (let weight = pixelWeights ! weightIdx
         in if weight \<noteq> 0 then
              accumulate srcAt pixelWeights right (srcIdx + 1) (weightIdx + 1)
                (add_weighted st srcIdx (srcAt srcIdx) weight)
            else accumulate srcAt pixelWeights right (srcIdx + 1) (weightIdx + 1) st)
      else st)"
  by pat_completeness auto
termination
  by (relation "measure (\<lambda>(srcAt, pixelWeights, right, srcIdx, rest). nat (right + 1 - srcIdx))")
    auto

declare accumulate.simps [simp del]

definition clamp :: "real \<Rightarrow> real" where
  "clamp r = (if r < 0 then 0 else if r > 65535 then 65535 else r)"

text \<open>
  The body of the inner loop of a pass, for the destination index \<open>dstIdx\<close> along the
  axis: the accumulated, clamped colour handed to \<^verbatim>\<open>dst.Set\<close>, and the log of reads.
\<close>

definition filtered_color ::
  "Resampler \<Rightarrow> (int \<Rightarrow> rgba) \<Rightarrow> real list list \<Rightarrow> int \<Rightarrow> int \<Rightarrow> int
     \<Rightarrow> panic + (NRGBA64 \<times> int list)" where
  "filtered_color flt srcAt weights srcSize dstSize dstIdx =
     (if dstIdx < 0 \<or> int (length weights) \<le> dstIdx then Inl IndexOutOfRange
      else
        (let pixelWeights = weights ! nat dstIdx;
             scale = scale_of srcSize dstSize;
             center = center_of scale dstIdx;
             support = support_of (real_of_int (Radius flt)) scale;
             left = left_of center support;
             right = right_of srcSize center support
         in (case accumulate srcAt pixelWeights right left 0 ((0, 0, 0, 0), []) of
               ((r, g, b, a), reads) \<Rightarrow>
                 Inr (NRGBA64 (go_uint16 (clamp r)) (go_uint16 (clamp g))
                        (go_uint16 (clamp b)) (go_uint16 (clamp a)), reads))))"

text \<open>The two nested loops of a pass, over the points in the order of the source.\<close>

fun set_pixels ::
  "(int \<times> int \<Rightarrow> panic + (NRGBA64 \<times> int list)) \<Rightarrow> (int \<times> int) list \<Rightarrow> NRGBAImage
     \<Rightarrow> panic + NRGBAImage" where
  "set_pixels color [] dst = Inr dst"
| "set_pixels color (p # ps) dst =
     (case color p of
        Inl e \<Rightarrow> Inl e
      | Inr (c, reads) \<Rightarrow> set_pixels color ps (NRGBASet dst (fst p) (snd p) (NRGBA64_RGBA c)))"

definition resizeVertical :: "Image \<Rightarrow> int \<Rightarrow> panic + (NRGBAImage option \<times> error option)" where
  "resizeVertical src height =
     (let srcBounds = Bounds src;
          srcWidth = Dx srcBounds;
          srcHeight = Dy srcBounds
      in if srcHeight = height then
           (let dst = NewNRGBA (Rect 0 0 srcWidth height)
            in Inr (Some (Draw dst (NRect dst) src (MinX srcBounds, MinY srcBounds)), None))
         else
           (let dst = NewNRGBA (Rect 0 0 srcWidth height);
                flt = NewLanczos 3
            in (case calculateWeights srcHeight height flt of
                  Inl p \<Rightarrow> Inl p
                | Inr None \<Rightarrow> Inr (None, Some FailedWeightsVertical)
                | Inr (Some weights) \<Rightarrow>
                    (case set_pixels
                            (\<lambda>(x, dstY). filtered_color flt
                               (\<lambda>srcY. At src (x + MinX srcBounds) (srcY + MinY srcBounds))
                               weights srcHeight height dstY)
                            (List.product [0 .. srcWidth - 1] [0 .. height - 1]) dst of
                       Inl p \<Rightarrow> Inl p
                     | Inr dst \<Rightarrow> Inr (Some dst, None)))))"

definition resizeHorizontal :: "Image \<Rightarrow> int \<Rightarrow> panic + (NRGBAImage option \<times> error option)" where
  "resizeHorizontal src width =
     (let srcBounds = Bounds src;
          srcWidth = Dx srcBounds;
          srcHeight = Dy srcBounds
      in if srcWidth = width then
           (let dst = NewNRGBA (Rect 0 0 width srcHeight)
            in Inr (Some (Draw dst (NRect dst) src (MinX srcBounds, MinY srcBounds)), None))
         else
           (let dst = NewNRGBA (Rect 0 0 width srcHeight);
                flt = NewLanczos 3
            in (case calculateWeights srcWidth width flt of
                  Inl p \<Rightarrow> Inl p
                | Inr None \<Rightarrow> Inr (None, Some FailedWeightsHorizontal)
                | Inr (Some weights) \<Rightarrow>
                    (case set_pixels
                            (\<lambda>(dstX, y). filtered_color flt
                               (\<lambda>srcX. At src (srcX + MinX srcBounds) (y + MinY srcBounds))
                               weights srcWidth width dstX)
                            (map (\<lambda>(y, dstX). (dstX, y))
                               (List.product [0 .. srcHeight - 1] [0 .. width - 1])) dst of
                       Inl p \<Rightarrow> Inl p
                     | Inr dst \<Rightarrow> Inr (Some dst, None)))))"

definition Resize ::
  "Image option \<Rightarrow> int \<Rightarrow> int \<Rightarrow> panic + (NRGBAImage option \<times> error option)" where
  "Resize src width height =
     (let dstWidth = width; dstHeight = height
      in (case src of
            None \<Rightarrow> Inr (None, Some SourceImageIsNil)
          | Some src \<Rightarrow>
              if dstWidth \<le> 0 \<or> dstHeight \<le> 0
              then Inr (None, Some (InvalidDimensions width height))
              else
                (let srcWidth = Dx (Bounds src); srcHeight = Dy (Bounds src)
                 in if srcWidth \<noteq> dstWidth \<and> srcHeight \<noteq> dstHeight then
                      (case resizeHorizontal src dstWidth of
                         Inl p \<Rightarrow> Inl p
                       | Inr (img, Some err) \<Rightarrow> Inr (None, Some err)
                       | Inr (Some img, None) \<Rightarrow> resizeVertical (asImage img) dstHeight
                       | Inr (None, None) \<Rightarrow> Inl NilPointerDereference)
                    else if srcWidth \<noteq> dstWidth then resizeHorizontal src dstWidth
                    else resizeVertical src dstHeight)))"

subsection \<open>resize, second copy: the flat weight table\<close>

text \<open>
  After the filters package, the listing of \<^verbatim>\<open>filter.go\<close> holds a second copy of
  package resize. It keeps the weights of all destination indices in one slice of
  \<^verbatim>\<open>dstSize * weightsPerPixel\<close> entries and normalises them over the range of source
  indices. Only its \<^verbatim>\<open>calculateWeights\<close> is modelled here.
\<close>

text \<open>
  The loop that divides the weights of one destination index by their sum, over the
  same range of source indices as the loop that stored them.
\<close>

function normalize_loop :: "real \<Rightarrow> int \<Rightarrow> int \<Rightarrow> nat \<Rightarrow> real list \<Rightarrow> panic + real list" where
  "normalize_loop weightSum right srcIdx weightIdx weights =
     (if srcIdx \<le> right then
        (if weightIdx < length weights
         then normalize_loop weightSum right (srcIdx + 1) (weightIdx + 1)
                (weights[weightIdx := weights ! weightIdx / weightSum])
         else Inl IndexOutOfRange)
      else Inr weights)"
  by pat_completeness auto
termination
  by (relation "measure (\<lambda>(weightSum, right, srcIdx, rest). nat (right + 1 - srcIdx))") auto

declare normalize_loop.simps [simp del]

text \<open>
  One iteration of the loop over \<^verbatim>\<open>dstIdx\<close>, on the flat array. The loop that stores
  the weights is, statement for statement, that of the first copy: \<open>weights_loop\<close>,
  started at \<^verbatim>\<open>dstIdx * weightsPerPixel\<close>.
\<close>

definition flat_row :: "int \<Rightarrow> int \<Rightarrow> Resampler \<Rightarrow> int \<Rightarrow> real list \<Rightarrow> panic + real list" where
  "flat_row srcSize dstSize flt dstIdx weights =
     (let scale = scale_of srcSize dstSize;
          support = support_of (filterRadius_of flt) scale;
          weightsPerPixel = weightsPerPixel_of support;
          center = center_of scale dstIdx;
          left = left_of center support;
          right = right_of srcSize center support
      in (case weights_loop flt scale center right left (nat (dstIdx * weightsPerPixel))
                 weights 0 of
            Inl p \<Rightarrow> Inl p
          | Inr (weights, weightSum) \<Rightarrow>
              if weightSum > 0
              then normalize_loop weightSum right left (nat (dstIdx * weightsPerPixel)) weights
              else Inr weights))"

fun flat_rows :: "int \<Rightarrow> int \<Rightarrow> Resampler \<Rightarrow> int list \<Rightarrow> real list \<Rightarrow> panic + real list" where
  "flat_rows srcSize dstSize flt [] weights = Inr weights"
| "flat_rows srcSize dstSize flt (dstIdx # rest) weights =
     (case flat_row srcSize dstSize flt dstIdx weights of
        Inl p \<Rightarrow> Inl p
      | Inr weights \<Rightarrow> flat_rows srcSize dstSize flt rest weights)"

text \<open>\<^verbatim>\<open>calculateWeights\<close> of the second copy: \<open>Inr None\<close> is the \<^verbatim>\<open>nil\<close> slice.\<close>

definition calculateWeights_flat :: "int \<Rightarrow> int \<Rightarrow> Resampler \<Rightarrow> panic + real list option" where
  "calculateWeights_flat srcSize dstSize flt =
     (if srcSize \<le> 0 \<or> dstSize \<le> 0 then Inr None
      else
        (let scale = scale_of srcSize dstSize;
             support = support_of (filterRadius_of flt) scale;
             weightsPerPixel = weightsPerPixel_of support;
             totalWeights = dstSize * weightsPerPixel
         in if totalWeights < 0 then Inl MakeSliceLenOutOfRange
            else (case flat_rows srcSize dstSize flt [0 .. dstSize - 1]
                         (replicate (nat totalWeights) 0) of
                    Inl p \<Rightarrow> Inl p
                  | Inr weights \<Rightarrow> Inr (Some weights))))"

subsection \<open>Notions used in the statements\<close>

text \<open>
  The weight that the loop of \<^verbatim>\<open>calculateWeights\<close> computes for one source index,
  before normalisation.
\<close>

definition weight_at :: "Resampler \<Rightarrow> real \<Rightarrow> real \<Rightarrow> int \<Rightarrow> real" where
  "weight_at flt scale center srcIdx =
     (if scale > 1 then Kernel flt ((real_of_int srcIdx - center) / scale)
      else Kernel flt (real_of_int srcIdx - center))"

text \<open>
  A destination index whose row can be allocated and whose clipped range of source
  indices is no longer than the row.
\<close>

definition row_fits :: "int \<Rightarrow> int \<Rightarrow> Resampler \<Rightarrow> int \<Rightarrow> bool" where
  "row_fits srcSize dstSize flt dstIdx =
     (let scale = scale_of srcSize dstSize;
          support = support_of (filterRadius_of flt) scale;
          weightsPerPixel = weightsPerPixel_of support;
          center = center_of scale dstIdx
      in 0 \<le> weightsPerPixel
         \<and> right_of srcSize center support - left_of center support + 1 \<le> weightsPerPixel)"

definition rows_fit :: "int \<Rightarrow> int \<Rightarrow> Resampler \<Rightarrow> bool" where
  "rows_fit srcSize dstSize flt = list_all (row_fits srcSize dstSize flt) [0 .. dstSize - 1]"


text \<open>
  Example rasters: \<open>w\<close> by \<open>h\<close> opaque grey pixels, every colour channel of 16-bit
  value \<open>v\<close>.
\<close>

definition opaque_image :: "int \<Rightarrow> int \<Rightarrow> 32 word \<Rightarrow> Image" where
  "opaque_image w h v = OtherImage (Rect 0 0 w h) (\<lambda>x y. (v, v, v, 0xffff))"

text \<open>
  An \<^verbatim>\<open>*image.NRGBA\<close> of one pixel, translucent: the bytes \<^verbatim>\<open>{1, 0, 0, 1}\<close>, as an
  \<^verbatim>\<open>image.Image\<close>.
\<close>

definition translucent_image :: Image where
  "translucent_image = NRGBAPointer \<lparr>NRect = Rect 0 0 1 1, Pix = (\<lambda>p. NRGBA 1 0 0 1)\<rparr>"

text \<open>
  A colour, by its \<^verbatim>\<open>RGBA\<close> values, that the 8-bit pixel of an \<^verbatim>\<open>*image.NRGBA\<close> holds
  exactly: converted by \<^verbatim>\<open>color.NRGBAModel\<close> and read back, it has the same four values.
\<close>

definition nrgba_exact :: "rgba \<Rightarrow> bool" where
  "nrgba_exact c = (NRGBA_RGBA (nrgbaModel c) = c)"

section \<open>Properties\<close>

subsection \<open>The clipped range\<close>

lemma go_int_nonneg: "0 \<le> x \<Longrightarrow> go_int x = \<lfloor>x\<rfloor>"
  by (simp add: go_int_def)

lemma left_of_floor: "left_of center support = max 0 \<lfloor>center - support\<rfloor>"
  unfolding left_of_def go_int_def Let_def
  by (auto simp: max_def) linarith+


subsection \<open>The loop of the weight table\<close>

lemma weights_loop_step:
  "weights_loop flt scale center right srcIdx weightIdx row weightSum =
     (if srcIdx \<le> right then
        (if weight_at flt scale center srcIdx \<noteq> 0 then
           (if weightIdx < length row
            then weights_loop flt scale center right (srcIdx + 1) (weightIdx + 1)
                   (row[weightIdx := weight_at flt scale center srcIdx])
                   (weightSum + weight_at flt scale center srcIdx)
            else Inl IndexOutOfRange)
         else weights_loop flt scale center right (srcIdx + 1) (weightIdx + 1) row weightSum)
      else Inr (row, weightSum))"
  by (subst weights_loop.simps) (simp add: weight_at_def Let_def)

lemma weights_loop_result:
  "weights_loop flt scale center right srcIdx weightIdx row weightSum = Inr (row', s)
   \<Longrightarrow> length row' = length row
       \<and> s = weightSum + sum_list (map (weight_at flt scale center) [srcIdx .. right])
       \<and> (\<forall>j < length row. row' ! j =
            (if weightIdx \<le> j \<and> int j - int weightIdx \<le> right - srcIdx
                \<and> weight_at flt scale center (srcIdx + (int j - int weightIdx)) \<noteq> 0
             then weight_at flt scale center (srcIdx + (int j - int weightIdx))
             else row ! j))"
proof (induction flt scale center right srcIdx weightIdx row weightSum arbitrary: row' s
       rule: weights_loop.induct)
  case (1 flt scale center right srcIdx weightIdx row weightSum)
  let ?w = "weight_at flt scale center srcIdx"
  show ?case
  proof (cases "srcIdx \<le> right")
    case False
    with "1.prems" show ?thesis
      by (subst (asm) weights_loop_step) auto
  next
    case le: True
    then have up: "[srcIdx .. right] = srcIdx # [srcIdx + 1 .. right]"
      by (simp add: upto_rec1)
    show ?thesis
    proof (cases "?w = 0")
      case True
      with le "1.prems"
      have rec: "weights_loop flt scale center right (srcIdx + 1) (weightIdx + 1) row weightSum
                 = Inr (row', s)"
        by (subst (asm) weights_loop_step) simp
      from True have w0: "(if scale > 1 then Kernel flt ((real_of_int srcIdx - center) / scale)
                           else Kernel flt (real_of_int srcIdx - center)) = 0"
        by (simp add: weight_at_def)
      have IH: "length row' = length row
        \<and> s = weightSum + sum_list (map (weight_at flt scale center) [srcIdx + 1 .. right])
        \<and> (\<forall>j < length row. row' ! j =
            (if weightIdx + 1 \<le> j \<and> int j - int (weightIdx + 1) \<le> right - (srcIdx + 1)
                \<and> weight_at flt scale center (srcIdx + 1 + (int j - int (weightIdx + 1))) \<noteq> 0
             then weight_at flt scale center (srcIdx + 1 + (int j - int (weightIdx + 1)))
             else row ! j))"
        using "1.IH"(2)[OF le refl refl _ rec] w0 by (simp add: Let_def)
      show ?thesis
      proof (intro conjI allI impI)
        show "length row' = length row" using IH by simp
        show "s = weightSum + sum_list (map (weight_at flt scale center) [srcIdx .. right])"
          using IH True by (simp add: up)
      next
        fix j assume j: "j < length row"
        have eq: "srcIdx + 1 + (int j - int (weightIdx + 1)) = srcIdx + (int j - int weightIdx)"
          by simp
        show "row' ! j =
            (if weightIdx \<le> j \<and> int j - int weightIdx \<le> right - srcIdx
                \<and> weight_at flt scale center (srcIdx + (int j - int weightIdx)) \<noteq> 0
             then weight_at flt scale center (srcIdx + (int j - int weightIdx))
             else row ! j)"
        proof (cases "j = weightIdx")
          case True
          then show ?thesis using IH j \<open>?w = 0\<close> by simp
        next
          case False
          have "row' ! j = (if weightIdx + 1 \<le> j \<and> int j - int (weightIdx + 1) \<le> right - (srcIdx + 1)
                \<and> weight_at flt scale center (srcIdx + 1 + (int j - int (weightIdx + 1))) \<noteq> 0
             then weight_at flt scale center (srcIdx + 1 + (int j - int (weightIdx + 1)))
             else row ! j)"
            using IH j by blast
          then show ?thesis using False unfolding eq by auto
        qed
      qed
    next
      case nz: False
      with le "1.prems" have lt: "weightIdx < length row"
        by (subst (asm) weights_loop_step) (simp split: if_splits)
      with nz le "1.prems"
      have rec: "weights_loop flt scale center right (srcIdx + 1) (weightIdx + 1)
                   (row[weightIdx := ?w]) (weightSum + ?w) = Inr (row', s)"
        by (subst (asm) weights_loop_step) simp
      from nz have w0: "(if scale > 1 then Kernel flt ((real_of_int srcIdx - center) / scale)
                           else Kernel flt (real_of_int srcIdx - center)) \<noteq> 0"
        by (simp add: weight_at_def)
      have weq: "(if scale > 1 then Kernel flt ((real_of_int srcIdx - center) / scale)
                           else Kernel flt (real_of_int srcIdx - center)) = ?w"
        by (simp add: weight_at_def)
      have IH: "length row' = length (row[weightIdx := ?w])
        \<and> s = (weightSum + ?w) + sum_list (map (weight_at flt scale center) [srcIdx + 1 .. right])
        \<and> (\<forall>j < length (row[weightIdx := ?w]). row' ! j =
            (if weightIdx + 1 \<le> j \<and> int j - int (weightIdx + 1) \<le> right - (srcIdx + 1)
                \<and> weight_at flt scale center (srcIdx + 1 + (int j - int (weightIdx + 1))) \<noteq> 0
             then weight_at flt scale center (srcIdx + 1 + (int j - int (weightIdx + 1)))
             else (row[weightIdx := ?w]) ! j))"
        using "1.IH"(1)[OF le refl refl _ lt] w0 rec unfolding weq by (simp add: Let_def)
      show ?thesis
      proof (intro conjI allI impI)
        show "length row' = length row" using IH by simp
        show "s = weightSum + sum_list (map (weight_at flt scale center) [srcIdx .. right])"
          using IH by (simp add: up)
      next
        fix j assume j: "j < length row"
        have eq: "srcIdx + 1 + (int j - int (weightIdx + 1)) = srcIdx + (int j - int weightIdx)"
          by simp
        show "row' ! j =
            (if weightIdx \<le> j \<and> int j - int weightIdx \<le> right - srcIdx
                \<and> weight_at flt scale center (srcIdx + (int j - int weightIdx)) \<noteq> 0
             then weight_at flt scale center (srcIdx + (int j - int weightIdx))
             else row ! j)"
        proof (cases "j = weightIdx")
          case True
          then show ?thesis using IH j nz le by simp
        next
          case False
          have "row' ! j = (if weightIdx + 1 \<le> j \<and> int j - int (weightIdx + 1) \<le> right - (srcIdx + 1)
                \<and> weight_at flt scale center (srcIdx + 1 + (int j - int (weightIdx + 1))) \<noteq> 0
             then weight_at flt scale center (srcIdx + 1 + (int j - int (weightIdx + 1)))
             else (row[weightIdx := ?w]) ! j)"
            using IH j by simp
          then show ?thesis using False unfolding eq by auto
        qed
      qed
    qed
  qed
qed

lemma weights_loop_fits:
  "int weightIdx + (right + 1 - srcIdx) \<le> int (length row)
   \<Longrightarrow> \<exists>row' s. weights_loop flt scale center right srcIdx weightIdx row weightSum = Inr (row', s)"
proof (induction flt scale center right srcIdx weightIdx row weightSum
       rule: weights_loop.induct)
  case (1 flt scale center right srcIdx weightIdx row weightSum)
  let ?w = "weight_at flt scale center srcIdx"
  have weq: "(if scale > 1 then Kernel flt ((real_of_int srcIdx - center) / scale)
                           else Kernel flt (real_of_int srcIdx - center)) = ?w"
    by (simp add: weight_at_def)
  show ?case
  proof (cases "srcIdx \<le> right")
    case False
    then show ?thesis by (subst weights_loop_step) simp
  next
    case le: True
    with "1.prems" have lt: "weightIdx < length row" by linarith
    show ?thesis
    proof (cases "?w = 0")
      case True
      have "\<exists>row' s. weights_loop flt scale center right (srcIdx + 1) (weightIdx + 1) row weightSum
              = Inr (row', s)"
        using "1.IH"(2)[OF le refl refl] True "1.prems" unfolding weq by simp
      with le True show ?thesis by (subst weights_loop_step) simp
    next
      case nz: False
      have "\<exists>row' s. weights_loop flt scale center right (srcIdx + 1) (weightIdx + 1)
                   (row[weightIdx := ?w]) (weightSum + ?w) = Inr (row', s)"
        using "1.IH"(1)[OF le refl refl _ lt] nz "1.prems" unfolding weq by simp
      with le nz lt show ?thesis by (subst weights_loop_step) simp
    qed
  qed
qed

lemma weights_loop_overflow:
  "srcIdx \<le> s \<Longrightarrow> s \<le> right \<Longrightarrow> weight_at flt scale center s \<noteq> 0
   \<Longrightarrow> int (length row) \<le> int weightIdx + (s - srcIdx)
   \<Longrightarrow> weights_loop flt scale center right srcIdx weightIdx row weightSum = Inl IndexOutOfRange"
proof (induction flt scale center right srcIdx weightIdx row weightSum
       rule: weights_loop.induct)
  case (1 flt scale center right srcIdx weightIdx row weightSum)
  let ?w = "weight_at flt scale center srcIdx"
  have weq: "(if scale > 1 then Kernel flt ((real_of_int srcIdx - center) / scale)
                           else Kernel flt (real_of_int srcIdx - center)) = ?w"
    by (simp add: weight_at_def)
  from "1.prems" have le: "srcIdx \<le> right" by simp
  show ?case
  proof (cases "srcIdx = s")
    case True
    with "1.prems" show ?thesis by (subst weights_loop_step) simp
  next
    case False
    with "1.prems" have s: "srcIdx + 1 \<le> s" by simp
    show ?thesis
    proof (cases "?w = 0")
      case True
      have "weights_loop flt scale center right (srcIdx + 1) (weightIdx + 1) row weightSum
              = Inl IndexOutOfRange"
        using "1.IH"(2)[OF le refl refl _ s] True "1.prems" unfolding weq by simp
      with le True show ?thesis by (subst weights_loop_step) simp
    next
      case nz: False
      show ?thesis
      proof (cases "weightIdx < length row")
        case lt: True
        have "weights_loop flt scale center right (srcIdx + 1) (weightIdx + 1)
                   (row[weightIdx := ?w]) (weightSum + ?w) = Inl IndexOutOfRange"
          using "1.IH"(1)[OF le refl refl _ lt s] nz "1.prems" unfolding weq by simp
        with le nz lt show ?thesis by (subst weights_loop_step) simp
      next
        case False
        with le nz show ?thesis by (subst weights_loop_step) simp
      qed
    qed
  qed
qed

subsection \<open>Rows and tables\<close>

lemma weights_row_fits:
  assumes "row_fits srcSize dstSize flt dstIdx"
  shows "\<exists>row. weights_row srcSize dstSize flt dstIdx = Inr row"
proof -
  define scale where "scale = scale_of srcSize dstSize"
  define support where "support = support_of (filterRadius_of flt) scale"
  define center where "center = center_of scale dstIdx"
  define left where "left = left_of center support"
  define right where "right = right_of srcSize center support"
  define n where "n = weightsPerPixel_of support"
  from assms have n0: "0 \<le> n" and fit: "right - left + 1 \<le> n"
    by (simp_all add: row_fits_def Let_def scale_def support_def center_def left_def right_def n_def)
  from fit n0 have "int 0 + (right + 1 - left) \<le> int (length (replicate (nat n) (0::real)))"
    by simp
  from weights_loop_fits [OF this]
  obtain row s where "weights_loop flt scale center right left 0 (replicate (nat n) 0) 0 = Inr (row, s)"
    by blast
  with n0 show ?thesis
    by (simp add: weights_row_def Let_def scale_def support_def center_def left_def right_def n_def)
qed

lemma weights_row_length:
  assumes "weights_row srcSize dstSize flt dstIdx = Inr row"
  shows "int (length row) =
           weightsPerPixel_of (support_of (filterRadius_of flt) (scale_of srcSize dstSize))"
proof -
  define scale where "scale = scale_of srcSize dstSize"
  define support where "support = support_of (filterRadius_of flt) scale"
  define center where "center = center_of scale dstIdx"
  define left where "left = left_of center support"
  define right where "right = right_of srcSize center support"
  define n where "n = weightsPerPixel_of support"
  from assms have n0: "0 \<le> n"
    by (auto simp: weights_row_def Let_def scale_def support_def n_def split: if_splits)
  with assms obtain row0 s where
    loop: "weights_loop flt scale center right left 0 (replicate (nat n) 0) 0 = Inr (row0, s)"
    and row: "row = (if s > 0 then map (\<lambda>w. w / s) row0 else row0)"
    by (auto simp: weights_row_def Let_def scale_def support_def center_def left_def right_def n_def
        split: sum.splits)
  from weights_loop_result [OF loop] have "length row0 = nat n" by simp
  with row n0 show ?thesis by (simp add: n_def support_def scale_def)
qed

lemma weights_row_overflow:
  assumes "0 \<le> weightsPerPixel_of (support_of (filterRadius_of flt) (scale_of srcSize dstSize))"
    and "left_of (center_of (scale_of srcSize dstSize) dstIdx)
           (support_of (filterRadius_of flt) (scale_of srcSize dstSize)) \<le> s"
    and "s \<le> right_of srcSize (center_of (scale_of srcSize dstSize) dstIdx)
           (support_of (filterRadius_of flt) (scale_of srcSize dstSize))"
    and "weight_at flt (scale_of srcSize dstSize) (center_of (scale_of srcSize dstSize) dstIdx) s \<noteq> 0"
    and "weightsPerPixel_of (support_of (filterRadius_of flt) (scale_of srcSize dstSize))
           \<le> s - left_of (center_of (scale_of srcSize dstSize) dstIdx)
                 (support_of (filterRadius_of flt) (scale_of srcSize dstSize))"
  shows "weights_row srcSize dstSize flt dstIdx = Inl IndexOutOfRange"
proof -
  define scale where "scale = scale_of srcSize dstSize"
  define support where "support = support_of (filterRadius_of flt) scale"
  define center where "center = center_of scale dstIdx"
  define left where "left = left_of center support"
  define right where "right = right_of srcSize center support"
  define n where "n = weightsPerPixel_of support"
  note defs = scale_def support_def center_def left_def right_def n_def
  from assms have n0: "0 \<le> n" and l: "left \<le> s" and r: "s \<le> right"
    and w: "weight_at flt scale center s \<noteq> 0" and over: "n \<le> s - left"
    by (simp_all add: defs)
  from over n0 have "int (length (replicate (nat n) (0::real))) \<le> int 0 + (s - left)"
    by simp
  from weights_loop_overflow [OF l r w this, of 0]
  have "weights_loop flt scale center right left 0 (replicate (nat n) 0) 0 = Inl IndexOutOfRange" .
  with n0 show ?thesis
    by (simp add: weights_row_def Let_def defs)
qed

lemma weights_rows_fit:
  assumes "\<forall>i \<in> set ds. row_fits srcSize dstSize flt i"
  shows "\<exists>rows. weights_rows srcSize dstSize flt ds = Inr rows"
  using assms
proof (induction ds)
  case Nil
  then show ?case by simp
next
  case (Cons d ds)
  then obtain row rows where "weights_row srcSize dstSize flt d = Inr row"
    and "weights_rows srcSize dstSize flt ds = Inr rows"
    using weights_row_fits [of srcSize dstSize flt d] by auto
  then show ?case by simp
qed

lemma weights_rows_nth:
  assumes "weights_rows srcSize dstSize flt ds = Inr rows"
  shows "length rows = length ds
       \<and> (\<forall>k < length ds. weights_row srcSize dstSize flt (ds ! k) = Inr (rows ! k))"
  using assms
proof (induction ds arbitrary: rows)
  case Nil
  then show ?case by simp
next
  case (Cons d ds)
  then obtain row rows' where row: "weights_row srcSize dstSize flt d = Inr row"
    and rest: "weights_rows srcSize dstSize flt ds = Inr rows'"
    and rows: "rows = row # rows'"
    by (auto split: sum.splits)
  from Cons.IH [OF rest] row rows show ?case
    by (auto simp: nth_Cons split: nat.splits)
qed

lemma weights_rows_panic:
  assumes "\<forall>i \<in> set ds. row_fits srcSize dstSize flt i"
    and "weights_row srcSize dstSize flt d = Inl p"
  shows "weights_rows srcSize dstSize flt (ds @ d # rest) = Inl p"
  using assms(1)
proof (induction ds)
  case Nil
  then show ?case using assms(2) by simp
next
  case (Cons a ds)
  then obtain row where "weights_row srcSize dstSize flt a = Inr row"
    using weights_row_fits [of srcSize dstSize flt a] by auto
  with Cons show ?case by simp
qed

lemma calculateWeights_nil:
  "calculateWeights srcSize dstSize flt = Inr None \<longleftrightarrow> srcSize \<le> 0 \<or> dstSize \<le> 0"
  by (auto simp: calculateWeights_def split: sum.splits)

lemma calculateWeights_rows:
  assumes "calculateWeights srcSize dstSize flt = Inr (Some weights)"
  shows "0 < srcSize \<and> 0 < dstSize \<and> int (length weights) = dstSize
       \<and> (\<forall>d. 0 \<le> d \<and> d < dstSize \<longrightarrow>
              weights_row srcSize dstSize flt d = Inr (weights ! nat d))"
proof -
  from assms have pos: "0 < srcSize" "0 < dstSize"
    and rows: "weights_rows srcSize dstSize flt [0 .. dstSize - 1] = Inr weights"
    by (auto simp: calculateWeights_def split: if_splits sum.splits)
  from weights_rows_nth [OF rows]
  have len: "length weights = length [0 .. dstSize - 1]"
    and nth: "\<forall>k < length [0 .. dstSize - 1].
                weights_row srcSize dstSize flt ([0 .. dstSize - 1] ! k) = Inr (weights ! k)"
    by simp_all
  have "weights_row srcSize dstSize flt d = Inr (weights ! nat d)"
    if "0 \<le> d" "d < dstSize" for d
  proof -
    from that have "nat d < length [0 .. dstSize - 1]" by simp
    moreover from that have "[0 .. dstSize - 1] ! nat d = d" by simp
    ultimately show ?thesis using nth by metis
  qed
  with pos len show ?thesis by simp
qed

lemma calculateWeights_fit:
  assumes "0 < srcSize" "0 < dstSize" "rows_fit srcSize dstSize flt"
  shows "\<exists>weights. calculateWeights srcSize dstSize flt = Inr (Some weights)"
proof -
  from assms(3) have "\<forall>i \<in> set [0 .. dstSize - 1]. row_fits srcSize dstSize flt i"
    by (simp add: rows_fit_def list_all_iff)
  from weights_rows_fit [OF this] assms(1,2) show ?thesis
    by (auto simp: calculateWeights_def)
qed

subsection \<open>A table whose construction panics\<close>

lemma sin_pi_times_nonzero:
  assumes "\<And>i::int. x \<noteq> of_int i"
  shows "sin (pi * x) \<noteq> 0"
proof
  assume "sin (pi * x) = 0"
  then obtain i :: int where "pi * x = of_int i * pi"
    by (auto simp: sin_zero_iff_int2)
  then have "x = of_int i" by simp
  with assms show False by blast
qed

lemma sinc_nonzero:
  assumes "\<And>i::int. x \<noteq> of_int i"
  shows "sinc x \<noteq> 0"
proof -
  have "x \<noteq> 0" using assms [of 0] by simp
  then show ?thesis using sin_pi_times_nonzero [OF assms] by (simp add: sinc_def)
qed

lemma not_int_77_26: "(77 / 26 :: real) \<noteq> of_int i"
proof
  assume "(77 / 26 :: real) = of_int i"
  then have "(of_int (26 * i) :: real) = of_int 77" by simp
  then have "26 * i = 77" by (simp only: of_int_eq_iff)
  then show False by presburger
qed

lemma not_int_77_78: "(77 / 78 :: real) \<noteq> of_int i"
proof
  assume "(77 / 78 :: real) = of_int i"
  then have "(of_int (78 * i) :: real) = of_int 77" by simp
  then have "78 * i = 77" by (simp only: of_int_eq_iff)
  then show False by presburger
qed

lemmas range_defs =
  scale_of_def support_of_def filterRadius_of_def weightsPerPixel_of_def
  right_of_def left_of_def center_of_def go_int_def

lemma weight_13_8_row3_last:
  "weight_at (Lanczos 3) (scale_of 13 8) (center_of (scale_of 13 8) 3) 10 \<noteq> 0"
  using sinc_nonzero [of "77 / 26", OF not_int_77_26] sinc_nonzero [of "77 / 78", OF not_int_77_78]
  by (simp add: weight_at_def center_of_def scale_of_def Let_def)

lemma weights_row_13_8_row3: "weights_row 13 8 (Lanczos 3) 3 = Inl IndexOutOfRange"
proof (rule weights_row_overflow [where s = 10])
  show "weight_at (Lanczos 3) (scale_of 13 8) (center_of (scale_of 13 8) 3) 10 \<noteq> 0"
    by (rule weight_13_8_row3_last)
qed (simp_all add: range_defs)

lemma calculateWeights_13_8: "calculateWeights 13 8 (Lanczos 3) = Inl IndexOutOfRange"
proof -
  have fits: "\<forall>i \<in> set [0, 1, 2]. row_fits 13 8 (Lanczos 3) i"
    by (simp add: row_fits_def range_defs)
  have "[0 .. 8 - 1] = [0, 1, 2] @ 3 # [4 .. 7::int]"
    by (simp add: upto.simps)
  with weights_rows_panic [OF fits weights_row_13_8_row3, of "[4 .. 7]"]
  show ?thesis by (simp add: calculateWeights_def)
qed

subsection \<open>The passes\<close>



lemma filtered_color_Inr:
  assumes "0 \<le> dstIdx" "dstIdx < int (length weights)"
  shows "\<exists>c reads. filtered_color flt srcAt weights srcSize dstSize dstIdx = Inr (c, reads)"
  using assms by (simp add: filtered_color_def Let_def split: prod.splits)

lemma NRGBASet_NRect [simp]: "NRect (NRGBASet img x y c) = NRect img"
  by (simp add: NRGBASet_def)

lemma set_pixels_NRect:
  "set_pixels color ps dst = Inr dst' \<Longrightarrow> NRect dst' = NRect dst"
  by (induction ps arbitrary: dst) (auto split: sum.splits prod.splits)

lemma set_pixels_Inr:
  assumes "\<forall>p \<in> set ps. \<exists>c reads. color p = Inr (c, reads)"
  shows "\<exists>dst'. set_pixels color ps dst = Inr dst'"
  using assms
proof (induction ps arbitrary: dst)
  case Nil
  then show ?case by simp
next
  case (Cons p ps)
  then obtain c reads where "color p = Inr (c, reads)" by auto
  with Cons show ?case by simp
qed

lemma Dx_Rect [simp]: "0 \<le> w \<Longrightarrow> Dx (Rect 0 0 w h) = w"
  by (simp add: Dx_def Rect_def)

lemma Dy_Rect [simp]: "0 \<le> h \<Longrightarrow> Dy (Rect 0 0 w h) = h"
  by (simp add: Dy_def Rect_def)

lemma NRect_Draw [simp]: "NRect (Draw dst r src sp) = NRect dst"
  by (simp add: Draw_def)

lemma NRect_NewNRGBA [simp]: "NRect (NewNRGBA r) = r"
  by (simp add: NewNRGBA_def)

lemma Bounds_asImage [simp]: "Bounds (asImage img) = NRect img"
  by (simp add: asImage_def)

lemma resizeVertical_filtered:
  assumes "Dy (Bounds src) \<noteq> height"
    and "calculateWeights (Dy (Bounds src)) height (Lanczos 3) = Inr (Some weights)"
  shows "\<exists>dst. resizeVertical src height = Inr (Some dst, None)
             \<and> NRect dst = Rect 0 0 (Dx (Bounds src)) height"
proof -
  let ?color = "\<lambda>(x, dstY). filtered_color (Lanczos 3)
                   (\<lambda>srcY. At src (x + MinX (Bounds src)) (srcY + MinY (Bounds src)))
                   weights (Dy (Bounds src)) height dstY"
  let ?ps = "List.product [0 .. Dx (Bounds src) - 1] [0 .. height - 1]"
  let ?dst = "NewNRGBA (Rect 0 0 (Dx (Bounds src)) height)"
  from calculateWeights_rows [OF assms(2)] have len: "int (length weights) = height" by simp
  have "\<forall>p \<in> set ?ps. \<exists>c reads. ?color p = Inr (c, reads)"
    using len by (auto intro!: filtered_color_Inr)
  from set_pixels_Inr [OF this, of ?dst]
  obtain dst' where ok: "set_pixels ?color ?ps ?dst = Inr dst'" by blast
  from set_pixels_NRect [OF ok] have "NRect dst' = Rect 0 0 (Dx (Bounds src)) height" by simp
  with ok assms show ?thesis
    by (simp add: resizeVertical_def Let_def NewLanczos_def)
qed

lemma resizeHorizontal_filtered:
  assumes "Dx (Bounds src) \<noteq> width"
    and "calculateWeights (Dx (Bounds src)) width (Lanczos 3) = Inr (Some weights)"
  shows "\<exists>dst. resizeHorizontal src width = Inr (Some dst, None)
             \<and> NRect dst = Rect 0 0 width (Dy (Bounds src))"
proof -
  let ?color = "\<lambda>(dstX, y). filtered_color (Lanczos 3)
                   (\<lambda>srcX. At src (srcX + MinX (Bounds src)) (y + MinY (Bounds src)))
                   weights (Dx (Bounds src)) width dstX"
  let ?ps = "map (\<lambda>(y, dstX). (dstX, y))
               (List.product [0 .. Dy (Bounds src) - 1] [0 .. width - 1])"
  let ?dst = "NewNRGBA (Rect 0 0 width (Dy (Bounds src)))"
  from calculateWeights_rows [OF assms(2)] have len: "int (length weights) = width" by simp
  have "\<forall>p \<in> set ?ps. \<exists>c reads. ?color p = Inr (c, reads)"
    using len by (auto intro!: filtered_color_Inr)
  from set_pixels_Inr [OF this, of ?dst]
  obtain dst' where ok: "set_pixels ?color ?ps ?dst = Inr dst'" by blast
  from set_pixels_NRect [OF ok] have "NRect dst' = Rect 0 0 width (Dy (Bounds src))" by simp
  with ok assms show ?thesis
    by (simp add: resizeHorizontal_def Let_def NewLanczos_def)
qed

lemma resizeVertical_copy:
  assumes "Dy (Bounds src) = height"
  shows "resizeVertical src height =
           Inr (Some (Draw (NewNRGBA (Rect 0 0 (Dx (Bounds src)) height))
                        (Rect 0 0 (Dx (Bounds src)) height) src
                        (MinX (Bounds src), MinY (Bounds src))), None)"
  using assms by (simp add: resizeVertical_def Let_def)

lemma resizeHorizontal_copy:
  assumes "Dx (Bounds src) = width"
  shows "resizeHorizontal src width =
           Inr (Some (Draw (NewNRGBA (Rect 0 0 width (Dy (Bounds src))))
                        (Rect 0 0 width (Dy (Bounds src))) src
                        (MinX (Bounds src), MinY (Bounds src))), None)"
  using assms by (simp add: resizeHorizontal_def Let_def)

subsection \<open>Tables that fit\<close>

lemma upsampling_row_fits:
  assumes "0 < srcSize" "srcSize \<le> dstSize" "0 \<le> R" "0 \<le> d"
  shows "row_fits srcSize dstSize (Lanczos R) d"
proof -
  define scale where "scale = scale_of srcSize dstSize"
  define c where "c = center_of scale d"
  from assms have sc: "0 < scale" "scale \<le> 1"
    by (simp_all add: scale_def scale_of_def)
  then have sup: "support_of (filterRadius_of (Lanczos R)) scale = real_of_int R"
    by (simp add: support_of_def filterRadius_of_def)
  have wpp: "weightsPerPixel_of (real_of_int R) = 2 * R + 1"
  proof -
    have "2 * real_of_int R = real_of_int (2 * R)" by simp
    then have "\<lfloor>2 * real_of_int R\<rfloor> = 2 * R" by (simp only: floor_of_int)
    with assms(3) show ?thesis by (simp add: weightsPerPixel_of_def go_int_def)
  qed
  have "0 \<le> (real_of_int d + 0.5) * scale" using sc assms(4) by simp
  then have c: "- 1 / 2 \<le> c" by (simp add: c_def center_of_def)
  have fl: "\<lfloor>c + real_of_int R\<rfloor> = \<lfloor>c\<rfloor> + R" "\<lfloor>c - real_of_int R\<rfloor> = \<lfloor>c\<rfloor> - R"
    by simp_all
  have r: "right_of srcSize c (real_of_int R) \<le> max 0 (\<lfloor>c\<rfloor> + R)"
  proof (cases "0 \<le> c + real_of_int R")
    case True
    then show ?thesis using fl by (auto simp: right_of_def go_int_def Let_def)
  next
    case False
    then have "c + real_of_int R \<le> 0" by simp
    then have "\<lceil>c + real_of_int R\<rceil> \<le> 0" by (simp only: ceiling_le_zero)
    with False assms(1) show ?thesis
      by (simp add: right_of_def go_int_def Let_def)
  qed
  have l: "max 0 (\<lfloor>c\<rfloor> - R) \<le> left_of c (real_of_int R)"
    using fl by (simp add: left_of_floor)
  have "\<lfloor>c\<rfloor> \<ge> - 1" using c by linarith
  from r l this assms(3) have "right_of srcSize c (real_of_int R) - left_of c (real_of_int R) \<le> 2 * R"
    by linarith
  with assms(3) show ?thesis
    by (simp add: row_fits_def Let_def sup wpp scale_def [symmetric] c_def [symmetric])
qed

lemma upsampling_rows_fit:
  assumes "0 < srcSize" "srcSize \<le> dstSize" "0 \<le> R"
  shows "rows_fit srcSize dstSize (Lanczos R)"
  using upsampling_row_fits [OF assms] by (simp add: rows_fit_def list_all_iff)

subsection \<open>Error returns\<close>

lemma resizeVertical_error:
  assumes "resizeVertical src height = Inr (r, Some e)"
  shows "r = None \<and> e = FailedWeightsVertical"
  using assms
  by (auto simp: resizeVertical_def Let_def split: if_splits sum.splits option.splits)

lemma resizeHorizontal_error:
  assumes "resizeHorizontal src width = Inr (r, Some e)"
  shows "r = None \<and> e = FailedWeightsHorizontal"
  using assms
  by (auto simp: resizeHorizontal_def Let_def split: if_splits sum.splits option.splits)

lemma Resize_error:
  assumes "Resize src w h = Inr (r, Some e)"
  shows "r = None
       \<and> (e = SourceImageIsNil \<longleftrightarrow> src = None)
       \<and> ((\<exists>w' h'. e = InvalidDimensions w' h') \<longleftrightarrow> src \<noteq> None \<and> (w \<le> 0 \<or> h \<le> 0))"
proof (cases src)
  case None
  with assms show ?thesis by (auto simp: Resize_def)
next
  case (Some img)
  show ?thesis
  proof (cases "w \<le> 0 \<or> h \<le> 0")
    case True
    with Some assms show ?thesis by (auto simp: Resize_def)
  next
    case False
    with Some assms have
      "(\<exists>mid. resizeHorizontal img w = Inr (Some mid, None)
              \<and> resizeVertical (asImage mid) h = Inr (r, Some e))
       \<or> (\<exists>r'. resizeHorizontal img w = Inr (r', Some e) \<and> r = None)
       \<or> resizeHorizontal img w = Inr (r, Some e)
       \<or> resizeVertical img h = Inr (r, Some e)"
      by (auto simp: Resize_def Let_def split: if_splits sum.splits option.splits prod.splits)
    then have "r = None \<and> (e = FailedWeightsVertical \<or> e = FailedWeightsHorizontal)"
      using resizeVertical_error resizeHorizontal_error by blast
    with Some False show ?thesis by auto
  qed
qed

lemma resizeHorizontal_13_8:
  assumes "Dx (Bounds src) = 13"
  shows "resizeHorizontal src 8 = Inl IndexOutOfRange"
  using assms calculateWeights_13_8
  by (simp add: resizeHorizontal_def Let_def NewLanczos_def)

subsection \<open>Colours\<close>

lemma rep8_drop: "(ucast (drop_bit 8 ((ucast (c :: 8 word) :: 32 word) OR push_bit 8 (ucast c))) :: 8 word) = c"
  by (rule bit_eqI) (auto simp: bit_simps dest: bit_imp_le_length)

lemma rep8_and: "(ucast (c :: 8 word) :: 32 word) AND push_bit 8 (ucast c) = 0"
  by (rule bit_eqI) (auto simp: bit_simps dest: bit_imp_le_length)

lemma rep8_eq: "(ucast (c :: 8 word) :: 32 word) OR push_bit 8 (ucast c) = 0x101 * ucast c"
proof -
  have "(ucast c :: 32 word) OR push_bit 8 (ucast c) = ucast c + push_bit 8 (ucast c)"
    by (rule disjunctive_add_eq_or [symmetric]) (rule rep8_and)
  also have "\<dots> = 0x101 * ucast c"
    by (simp add: push_bit_eq_mult)
  finally show ?thesis .
qed

lemma unat_8_bound: "unat (c :: 8 word) \<le> 255"
  using unsigned_less [of c, where 'a = nat] by simp

lemma unat_ucast_8_32: "unat (ucast (c :: 8 word) :: 32 word) = unat c"
  using unat_8_bound [of c] by (simp add: unsigned_ucast_eq take_bit_nat_eq_self)

lemma unat_rep8: "unat ((ucast (c :: 8 word) :: 32 word) OR push_bit 8 (ucast c)) = 257 * unat c"
proof -
  have "unat (0x101 * (ucast c :: 32 word)) = unat (0x101 :: 32 word) * unat (ucast c :: 32 word)"
    using unat_8_bound [of c] by (subst unat_mult_lem [THEN iffD1]) (simp_all add: unat_ucast_8_32)
  then show ?thesis by (simp add: rep8_eq unat_ucast_8_32)
qed

lemma unat_nrgba_channel: "unat (nrgba_channel c a) = (257 * unat c * unat a) div 255"
proof -
  let ?r = "(ucast c :: 32 word) OR push_bit 8 (ucast c)"
  have "257 * unat c * unat a \<le> 257 * 255 * 255"
    using unat_8_bound [of c] unat_8_bound [of a] by (intro mult_le_mono) simp_all
  moreover have "unat ?r * unat (ucast a :: 32 word) = 257 * unat c * unat a"
    by (simp only: unat_rep8 unat_ucast_8_32)
  moreover have "(257 * 255 * 255 :: nat) < 2 ^ LENGTH(32)" by simp
  ultimately have "unat ?r * unat (ucast a :: 32 word) < 2 ^ LENGTH(32)"
    by (simp only: le_less_trans)
  then have "unat (?r * ucast a) = unat ?r * unat (ucast a :: 32 word)"
    by (simp only: unat_mult_lem [THEN iffD1])
  then show ?thesis
    by (simp add: nrgba_channel_def Let_def unat_div unat_rep8 unat_ucast_8_32)
qed

lemma nrgba_channel_le: "nrgba_channel c a \<le> 0xffff"
proof -
  have "257 * unat c * unat a \<le> 257 * 255 * 255"
    using unat_8_bound [of c] unat_8_bound [of a] by (intro mult_le_mono) simp_all
  then have "(257 * unat c * unat a) div 255 \<le> (257 * 255 * 255) div 255"
    by (rule div_le_mono)
  then have "(257 * unat c * unat a) div 255 \<le> 65535" by simp
  then show ?thesis by (simp add: word_le_nat_alt unat_nrgba_channel)
qed

lemma nrgba_channel_opaque:
  "nrgba_channel c 0xff = (ucast c :: 32 word) OR push_bit 8 (ucast c)"
proof -
  have "unat (nrgba_channel c 0xff) = unat ((ucast c :: 32 word) OR push_bit 8 (ucast c))"
    by (simp add: unat_nrgba_channel unat_rep8)
  then show ?thesis by (simp only: word_unat_eq_iff)
qed

lemma alpha_rep_le: "(ucast (a :: 8 word) :: 32 word) OR push_bit 8 (ucast a) \<le> 0xffff"
  using unat_8_bound [of a] by (simp add: word_le_nat_alt unat_rep8)

lemma NRGBA_RGBA_bounds:
  "(case NRGBA_RGBA p of (r, g, b, a) \<Rightarrow>
      r \<le> 0xffff \<and> g \<le> 0xffff \<and> b \<le> 0xffff \<and> a \<le> 0xffff)"
  by (simp add: NRGBA_RGBA_def Let_def nrgba_channel_le alpha_rep_le)

lemma NRGBA_RGBA_opaque:
  "NRGBA_RGBA (NRGBA r g b 0xff) =
     ((ucast r :: 32 word) OR push_bit 8 (ucast r), (ucast g :: 32 word) OR push_bit 8 (ucast g),
      (ucast b :: 32 word) OR push_bit 8 (ucast b), 0xffff)"
  by (simp add: NRGBA_RGBA_def nrgba_channel_opaque)

lemma nrgbaModel_opaque:
  "nrgbaModel (r, g, b, 0xffff) =
     NRGBA (ucast (drop_bit 8 r)) (ucast (drop_bit 8 g)) (ucast (drop_bit 8 b)) 0xff"
  by (simp add: nrgbaModel_def)

lemma nrgbaModel_opaque_roundtrip:
  "nrgbaModel (NRGBA_RGBA (NRGBA r g b 0xff)) = NRGBA r g b 0xff"
  by (simp only: NRGBA_RGBA_opaque nrgbaModel_opaque rep8_drop)

lemma deep_pixel: "NRGBA_RGBA (nrgbaModel (0x1234, 0x1234, 0x1234, 0xffff)) = (0x1212, 0x1212, 0x1212, 0xffff)"
  by (simp add: NRGBA_RGBA_def nrgbaModel_def Let_def nrgba_channel_def)

subsection \<open>The clipped range, in the words of the specification\<close>




subsection \<open>Clamping and narrowing\<close>

lemma clamp_range: "0 \<le> clamp v \<and> clamp v \<le> 65535"
  by (simp add: clamp_def)

lemma uint_go_uint16_clamp: "uint (go_uint16 (clamp v)) = \<lfloor>clamp v\<rfloor>"
proof -
  have "0 \<le> \<lfloor>clamp v\<rfloor>" "\<lfloor>clamp v\<rfloor> < 2 ^ 16"
    using clamp_range [of v] by (simp_all add: floor_less_iff)
  then have "take_bit 16 \<lfloor>clamp v\<rfloor> = \<lfloor>clamp v\<rfloor>"
    by (simp add: take_bit_int_eq_self)
  then show ?thesis
    using clamp_range [of v] by (simp add: go_uint16_def go_int_def uint_word_of_int_eq)
qed

lemma stored_pixel_bounds:
  "(case NRGBA_RGBA p of (r, g, b, a) \<Rightarrow>
      unat r \<le> 65535 \<and> unat g \<le> 65535 \<and> unat b \<le> 65535 \<and> unat a \<le> 65535)"
  using NRGBA_RGBA_bounds [of p] by (simp add: word_le_nat_alt split: prod.splits)

subsection \<open>The direct copy\<close>

lemma Draw_pixel:
  assumes "0 \<le> x" "x < Dx (Bounds src)" "0 \<le> y" "y < Dy (Bounds src)"
  shows "NRGBAAt (Draw (NewNRGBA (Rect 0 0 (Dx (Bounds src)) (Dy (Bounds src))))
                    (Rect 0 0 (Dx (Bounds src)) (Dy (Bounds src))) src
                    (MinX (Bounds src), MinY (Bounds src))) x y
           = source_pixel src (x + MinX (Bounds src)) (y + MinY (Bounds src))"
  using assms
  by (simp add: NRGBAAt_def Draw_def NewNRGBA_def In_def Rect_def Dx_def Dy_def Let_def)

lemma source_pixel_NRGBA:
  assumes "0 \<le> x" "x < Dx (NRect s)" "0 \<le> y" "y < Dy (NRect s)"
  shows "source_pixel (NRGBAPointer s) (x + MinX (NRect s)) (y + MinY (NRect s))
           = NRGBAAt s (x + MinX (NRect s)) (y + MinY (NRect s))"
  using assms by (simp add: source_pixel_def NRGBAAt_def In_def Dx_def Dy_def)

lemma source_pixel_Other: "source_pixel (OtherImage r f) sx sy = nrgbaModel (f sx sy)"
  by (simp add: source_pixel_def)

subsection \<open>The entries of a row\<close>

lemma weights_row_entries:
  assumes "weights_row srcSize dstSize flt d = Inr row"
  defines "scale \<equiv> scale_of srcSize dstSize"
  defines "support \<equiv> support_of (filterRadius_of flt) scale"
  defines "center \<equiv> center_of scale d"
  defines "left \<equiv> left_of center support"
  defines "right \<equiv> right_of srcSize center support"
  defines "weightSum \<equiv> sum_list (map (weight_at flt scale center) [left .. right])"
  shows "int (length row) = weightsPerPixel_of support"
    and "\<And>s. left \<le> s \<Longrightarrow> s \<le> right \<Longrightarrow> s - left < int (length row) \<Longrightarrow>
           row ! nat (s - left) =
             (if weightSum > 0 then weight_at flt scale center s / weightSum
              else weight_at flt scale center s)"
    and "\<And>s. left \<le> s \<Longrightarrow> s \<le> right \<Longrightarrow> int (length row) \<le> s - left \<Longrightarrow>
           weight_at flt scale center s = 0"
    and "\<And>j. j < length row \<Longrightarrow> right - left < int j \<Longrightarrow> row ! j = 0"
proof -
  define n where "n = weightsPerPixel_of support"
  note defs = scale_def support_def center_def left_def right_def n_def
  from assms(1) have n0: "0 \<le> n"
    by (auto simp: weights_row_def Let_def defs split: if_splits)
  with assms(1) obtain row0 s0 where
    loop: "weights_loop flt scale center right left 0 (replicate (nat n) 0) 0 = Inr (row0, s0)"
    and row: "row = (if s0 > 0 then map (\<lambda>w. w / s0) row0 else row0)"
    by (auto simp: weights_row_def Let_def defs split: sum.splits)
  from weights_loop_result [OF loop]
  have len0: "length row0 = nat n"
    and s0: "s0 = weightSum"
    and ent: "\<And>j. j < nat n \<Longrightarrow> row0 ! j =
                (if int j \<le> right - left \<and> weight_at flt scale center (left + int j) \<noteq> 0
                 then weight_at flt scale center (left + int j) else 0)"
    by (simp_all add: weightSum_def)
  from row len0 have len: "length row = nat n" by simp
  with n0 show "int (length row) = weightsPerPixel_of support" by (simp add: n_def)
  show "row ! nat (s - left) =
             (if weightSum > 0 then weight_at flt scale center s / weightSum
              else weight_at flt scale center s)"
    if "left \<le> s" "s \<le> right" "s - left < int (length row)" for s
  proof -
    from that len n0 have j: "nat (s - left) < nat n" by simp
    from ent [OF j] that have "row0 ! nat (s - left) = weight_at flt scale center s"
      by simp
    with j len0 row s0 show ?thesis by simp
  qed
  show "weight_at flt scale center s = 0"
    if "left \<le> s" "s \<le> right" "int (length row) \<le> s - left" for s
  proof (rule ccontr)
    assume nz: "weight_at flt scale center s \<noteq> 0"
    from that(3) len have "int (length (replicate (nat n) (0::real))) \<le> int 0 + (s - left)"
      by simp
    from weights_loop_overflow [OF that(1,2) nz this, of 0] loop show False by simp
  qed
  show "row ! j = 0" if "j < length row" "right - left < int j" for j
  proof -
    from that len have j: "j < nat n" by simp
    from ent [OF j] that have "row0 ! j = 0" by simp
    with j len0 row show ?thesis by simp
  qed
qed

lemma sinc_pos:
  assumes "0 < x" "x < 1"
  shows "0 < sinc x"
proof -
  have "0 < pi * x" using assms by simp
  moreover have "pi * x < pi" using assms by simp
  ultimately have "0 < sin (pi * x)" by (rule sin_gt_zero)
  with \<open>0 < pi * x\<close> assms show ?thesis by (simp add: sinc_def)
qed

lemma Kernel_quarter_pos: "0 < Kernel (Lanczos 3) (1 / 4)"
  using sinc_pos [of "1 / 4"] sinc_pos [of "1 / 12"] by (simp add: Let_def)

lemma Kernel_minus_quarter: "Kernel (Lanczos 3) (- (1 / 4)) = Kernel (Lanczos 3) (1 / 4)"
  by (simp add: Let_def)

subsection \<open>The flat weight table\<close>

lemma normalize_loop_result:
  "int weightIdx + (right + 1 - srcIdx) \<le> int (length weights)
   \<Longrightarrow> \<exists>weights'. normalize_loop weightSum right srcIdx weightIdx weights = Inr weights'
          \<and> length weights' = length weights
          \<and> (\<forall>j < length weights. weights' ! j =
                (if weightIdx \<le> j \<and> int j - int weightIdx \<le> right - srcIdx
                 then weights ! j / weightSum else weights ! j))"
proof (induction weightSum right srcIdx weightIdx weights rule: normalize_loop.induct)
  case (1 weightSum right srcIdx weightIdx weights)
  show ?case
  proof (cases "srcIdx \<le> right")
    case False
    then show ?thesis by (subst normalize_loop.simps) simp
  next
    case le: True
    with "1.prems" have lt: "weightIdx < length weights" by linarith
    let ?w = "weights[weightIdx := weights ! weightIdx / weightSum]"
    from "1.prems" have "int (weightIdx + 1) + (right + 1 - (srcIdx + 1)) \<le> int (length ?w)"
      by simp
    from "1.IH" [OF le lt this]
    obtain weights' where rec: "normalize_loop weightSum right (srcIdx + 1) (weightIdx + 1) ?w
                                  = Inr weights'"
      and len: "length weights' = length ?w"
      and ent: "\<forall>j < length ?w. weights' ! j =
                (if weightIdx + 1 \<le> j \<and> int j - int (weightIdx + 1) \<le> right - (srcIdx + 1)
                 then ?w ! j / weightSum else ?w ! j)"
      by blast
    have "normalize_loop weightSum right srcIdx weightIdx weights = Inr weights'"
      using le lt rec by (subst normalize_loop.simps) simp
    moreover have "length weights' = length weights" using len by simp
    moreover have "weights' ! j =
                (if weightIdx \<le> j \<and> int j - int weightIdx \<le> right - srcIdx
                 then weights ! j / weightSum else weights ! j)" if "j < length weights" for j
    proof (cases "j = weightIdx")
      case True
      with ent that le show ?thesis by simp
    next
      case False
      with ent that show ?thesis by auto
    qed
    ultimately show ?thesis by blast
  qed
qed

lemma flat_row_result:
  fixes srcSize dstSize :: int and flt :: Resampler and dstIdx :: int and weights :: "real list"
  defines "scale \<equiv> scale_of srcSize dstSize"
  defines "support \<equiv> support_of (filterRadius_of flt) scale"
  defines "center \<equiv> center_of scale dstIdx"
  defines "left \<equiv> left_of center support"
  defines "right \<equiv> right_of srcSize center support"
  defines "base \<equiv> nat (dstIdx * weightsPerPixel_of support)"
  defines "weightSum \<equiv> sum_list (map (weight_at flt scale center) [left .. right])"
  assumes fits: "int base + (right + 1 - left) \<le> int (length weights)"
  shows "\<exists>weights'. flat_row srcSize dstSize flt dstIdx weights = Inr weights'
          \<and> length weights' = length weights
          \<and> (\<forall>j < length weights. weights' ! j =
                (if base \<le> j \<and> int j - int base \<le> right - left
                 then (if weight_at flt scale center (left + (int j - int base)) \<noteq> 0
                       then weight_at flt scale center (left + (int j - int base))
                       else weights ! j) / (if weightSum > 0 then weightSum else 1)
                 else weights ! j))"
proof -
  from weights_loop_fits [OF fits]
  obtain w1 s where loop: "weights_loop flt scale center right left base weights 0 = Inr (w1, s)"
    by blast
  from weights_loop_result [OF loop]
  have len1: "length w1 = length weights" and s: "s = weightSum"
    and ent1: "\<forall>j < length weights. w1 ! j =
            (if base \<le> j \<and> int j - int base \<le> right - left
                \<and> weight_at flt scale center (left + (int j - int base)) \<noteq> 0
             then weight_at flt scale center (left + (int j - int base))
             else weights ! j)"
    by (simp_all add: weightSum_def)
  show ?thesis
  proof (cases "weightSum > 0")
    case False
    with loop s have "flat_row srcSize dstSize flt dstIdx weights = Inr w1"
      by (simp add: flat_row_def Let_def scale_def support_def center_def left_def right_def
          base_def)
    with len1 ent1 False show ?thesis by auto
  next
    case True
    from fits len1 have "int base + (right + 1 - left) \<le> int (length w1)" by simp
    from normalize_loop_result [OF this, of weightSum]
    obtain w2 where norm: "normalize_loop weightSum right left base w1 = Inr w2"
      and len2: "length w2 = length w1"
      and ent2: "\<forall>j < length w1. w2 ! j =
                (if base \<le> j \<and> int j - int base \<le> right - left
                 then w1 ! j / weightSum else w1 ! j)"
      by blast
    from loop s True norm have "flat_row srcSize dstSize flt dstIdx weights = Inr w2"
      by (simp add: flat_row_def Let_def scale_def support_def center_def left_def right_def
          base_def)
    moreover have "length w2 = length weights" using len1 len2 by simp
    moreover have "\<forall>j < length weights. w2 ! j =
                (if base \<le> j \<and> int j - int base \<le> right - left
                 then (if weight_at flt scale center (left + (int j - int base)) \<noteq> 0
                       then weight_at flt scale center (left + (int j - int base))
                       else weights ! j) / (if weightSum > 0 then weightSum else 1)
                 else weights ! j)"
      using ent1 ent2 len1 True by auto
    ultimately show ?thesis by blast
  qed
qed

lemma Kernel_Lanczos_minus: "Kernel (Lanczos R) (- x) = Kernel (Lanczos R) x"
  by simp

lemma Kernel_Lanczos_outside: "real_of_int R \<le> \<bar>x\<bar> \<Longrightarrow> Kernel (Lanczos R) x = 0"
  by simp

lemma Kernel_Lanczos1_bounds:
  assumes "0 < x" "x < 1"
  shows "0 < Kernel (Lanczos 1) x" and "Kernel (Lanczos 1) x \<le> 1"
proof -
  have s: "0 < sinc x" using assms by (rule sinc_pos)
  have "sin (pi * x) \<le> pi * x" using assms by (intro sin_x_le_x) simp
  then have le: "sinc x \<le> 1" using assms by (simp add: sinc_def)
  have k: "Kernel (Lanczos 1) x = sinc x * sinc x" using assms by (simp add: Let_def)
  show "0 < Kernel (Lanczos 1) x" using s unfolding k by simp
  have "sinc x * sinc x \<le> 1 * 1" using s le by (intro mult_mono) simp_all
  then show "Kernel (Lanczos 1) x \<le> 1" unfolding k by simp
qed

lemma sin_5_8: "sqrt 2 / 2 \<le> sin (pi * (5 / 8))"
proof -
  have "sin (pi / 4) \<le> sin (3 * pi / 8)"
    by (intro sin_monotone_2pi_le) simp_all
  moreover have "sin (pi * (5 / 8)) = sin (pi - pi * (5 / 8))" by (simp only: sin_pi_minus)
  moreover have "pi - pi * (5 / 8) = 3 * pi / 8" by simp
  ultimately show ?thesis by (simp add: sin_45)
qed

lemma Kernel_5_8_lower: "2 / 25 \<le> Kernel (Lanczos 1) (5 / 8)"
proof -
  let ?s = "sin (pi * (5 / 8))"
  have k: "Kernel (Lanczos 1) (5 / 8) = ?s * ?s / ((pi * (5 / 8)) * (pi * (5 / 8)))"
    by (simp add: Let_def sinc_def)
  have r: "0 \<le> sqrt 2 / 2" by simp
  from r sin_5_8 have "0 \<le> ?s" by (rule order_trans)
  with sin_5_8 r have "(sqrt 2 / 2) * (sqrt 2 / 2) \<le> ?s * ?s"
    by (intro mult_mono)
  then have num: "1 / 2 \<le> ?s * ?s" by simp
  have "pi * (5 / 8) \<le> 5 / 2" using pi_less_4 by simp
  moreover have "0 \<le> pi * (5 / 8)" by simp
  ultimately have "(pi * (5 / 8)) * (pi * (5 / 8)) \<le> (5 / 2) * (5 / 2)"
    by (intro mult_mono) simp_all
  then have den: "(pi * (5 / 8)) * (pi * (5 / 8)) \<le> 25 / 4" by simp
  have dpos: "0 < (pi * (5 / 8)) * (pi * (5 / 8))" by simp
  have "2 / 25 = (1 / 2) / (25 / 4 :: real)" by simp
  also have "\<dots> \<le> (?s * ?s) / ((pi * (5 / 8)) * (pi * (5 / 8)))"
    using num den dpos by (intro frac_le) simp_all
  finally show ?thesis by (simp only: k)
qed

lemma flat_8_6_ranges:
  "scale_of 8 6 = 4 / 3"
  "support_of (filterRadius_of (Lanczos 1)) (4 / 3) = 4 / 3"
  "weightsPerPixel_of (4 / 3) = 3"
  "center_of (4 / 3) 0 = 1 / 6" "left_of (1 / 6) (4 / 3) = 0" "right_of 8 (1 / 6) (4 / 3) = 1"
  "center_of (4 / 3) 1 = 3 / 2" "left_of (3 / 2) (4 / 3) = 0" "right_of 8 (3 / 2) (4 / 3) = 2"
  "center_of (4 / 3) 2 = 17 / 6" "left_of (17 / 6) (4 / 3) = 1" "right_of 8 (17 / 6) (4 / 3) = 4"
  "center_of (4 / 3) 3 = 25 / 6" "left_of (25 / 6) (4 / 3) = 2" "right_of 8 (25 / 6) (4 / 3) = 5"
  "center_of (4 / 3) 4 = 11 / 2" "left_of (11 / 2) (4 / 3) = 4" "right_of 8 (11 / 2) (4 / 3) = 6"
  "center_of (4 / 3) 5 = 41 / 6" "left_of (41 / 6) (4 / 3) = 5" "right_of 8 (41 / 6) (4 / 3) = 7"
  by (simp_all add: range_defs)

lemma flat_8_6_weights:
  "weight_at (Lanczos 1) (4 / 3) (25 / 6) 2 = 0"
  "weight_at (Lanczos 1) (4 / 3) (25 / 6) 3 = Kernel (Lanczos 1) (7 / 8)"
  "weight_at (Lanczos 1) (4 / 3) (25 / 6) 4 = Kernel (Lanczos 1) (1 / 8)"
  "weight_at (Lanczos 1) (4 / 3) (25 / 6) 5 = Kernel (Lanczos 1) (5 / 8)"
  "weight_at (Lanczos 1) (4 / 3) (11 / 2) 4 = 0"
  "weight_at (Lanczos 1) (4 / 3) (11 / 2) 5 = Kernel (Lanczos 1) (3 / 8)"
  "weight_at (Lanczos 1) (4 / 3) (11 / 2) 6 = Kernel (Lanczos 1) (3 / 8)"
  using Kernel_Lanczos_minus [of 1 "7 / 8"] Kernel_Lanczos_minus [of 1 "1 / 8"]
    Kernel_Lanczos_minus [of 1 "3 / 8"]
    Kernel_Lanczos_outside [of 1 "- (13 / 8)"] Kernel_Lanczos_outside [of 1 "- (9 / 8)"]
  by (simp_all add: weight_at_def del: Kernel.simps)

lemma flat_8_6_table:
  fixes k1 k3 k5 k7 :: real
  defines "k1 \<equiv> Kernel (Lanczos 1) (1 / 8)"
  defines "k3 \<equiv> Kernel (Lanczos 1) (3 / 8)"
  defines "k5 \<equiv> Kernel (Lanczos 1) (5 / 8)"
  defines "k7 \<equiv> Kernel (Lanczos 1) (7 / 8)"
  shows "\<exists>weights. calculateWeights_flat 8 6 (Lanczos 1) = Inr (Some weights)
           \<and> length weights = 18
           \<and> weights ! 12 = k5 / (k7 + k1 + k5) / (k3 + k3)
           \<and> weights ! 13 = k3 / (k3 + k3)
           \<and> weights ! 14 = k3 / (k3 + k3)"
proof -
  note r = flat_8_6_ranges
  have pos: "0 < k1" "0 < k3" "0 < k5" "0 < k7"
    unfolding k1_def k3_def k5_def k7_def by (simp_all add: Kernel_Lanczos1_bounds(1) del: Kernel.simps)
  let ?T0 = "replicate 18 (0::real)"
  from flat_row_result [where dstIdx = 0 and srcSize = 8 and dstSize = 6 and flt = "Lanczos 1" and weights = ?T0]
  obtain T1 where T1: "flat_row 8 6 (Lanczos 1) 0 ?T0 = Inr T1" "length T1 = 18"
    unfolding r by auto
  from flat_row_result [where dstIdx = 1 and srcSize = 8 and dstSize = 6 and flt = "Lanczos 1" and weights = "T1"] T1(2)
  obtain T2 where T2: "flat_row 8 6 (Lanczos 1) 1 T1 = Inr T2" "length T2 = 18"
    unfolding r by auto
  from flat_row_result [where dstIdx = 2 and srcSize = 8 and dstSize = 6 and flt = "Lanczos 1" and weights = "T2"] T2(2)
  obtain T3 where T3: "flat_row 8 6 (Lanczos 1) 2 T2 = Inr T3" "length T3 = 18"
    unfolding r by auto
  have up3: "[2 .. 5 :: int] = [2, 3, 4, 5]" by (simp add: upto.simps)
  have S3: "sum_list (map (weight_at (Lanczos 1) (4 / 3) (25 / 6)) [2, 3, 4, 5]) = k7 + k1 + k5"
    by (simp add: flat_8_6_weights k1_def k5_def k7_def del: Kernel.simps)
  have fit3: "int (nat (3 * 3)) + (5 + 1 - 2) \<le> int (length T3)" using T3(2) by simp
  from flat_row_result [where dstIdx = 3 and srcSize = 8 and dstSize = 6 and flt = "Lanczos 1" and weights = "T3", unfolded r up3 S3, OF fit3]
  obtain T4 where T4: "flat_row 8 6 (Lanczos 1) 3 T3 = Inr T4" "length T4 = length T3"
    and e4: "\<forall>j < length T3. T4 ! j =
                (if nat (3 * 3) \<le> j \<and> int j - int (nat (3 * 3)) \<le> 5 - 2
                 then (if weight_at (Lanczos 1) (4 / 3) (25 / 6) (2 + (int j - int (nat (3 * 3)))) \<noteq> 0
                       then weight_at (Lanczos 1) (4 / 3) (25 / 6) (2 + (int j - int (nat (3 * 3))))
                       else T3 ! j) / (if k7 + k1 + k5 > 0 then k7 + k1 + k5 else 1)
                 else T3 ! j)"
    by blast
  from e4 [rule_format, of 12] T3(2) pos
  have T4_12: "T4 ! 12 = k5 / (k7 + k1 + k5)"
    by (simp add: flat_8_6_weights k5_def [symmetric] del: Kernel.simps)
  have up4: "[4 .. 6 :: int] = [4, 5, 6]" by (simp add: upto.simps)
  have S4: "sum_list (map (weight_at (Lanczos 1) (4 / 3) (11 / 2)) [4, 5, 6]) = k3 + k3"
    by (simp add: flat_8_6_weights k3_def del: Kernel.simps)
  have fit4: "int (nat (4 * 3)) + (6 + 1 - 4) \<le> int (length T4)" using T3(2) T4(2) by simp
  from flat_row_result [where dstIdx = 4 and srcSize = 8 and dstSize = 6 and flt = "Lanczos 1" and weights = "T4", unfolded r up4 S4, OF fit4]
  obtain T5 where T5: "flat_row 8 6 (Lanczos 1) 4 T4 = Inr T5" "length T5 = length T4"
    and e5: "\<forall>j < length T4. T5 ! j =
                (if nat (4 * 3) \<le> j \<and> int j - int (nat (4 * 3)) \<le> 6 - 4
                 then (if weight_at (Lanczos 1) (4 / 3) (11 / 2) (4 + (int j - int (nat (4 * 3)))) \<noteq> 0
                       then weight_at (Lanczos 1) (4 / 3) (11 / 2) (4 + (int j - int (nat (4 * 3))))
                       else T4 ! j) / (if k3 + k3 > 0 then k3 + k3 else 1)
                 else T4 ! j)"
    by blast
  have len4: "length T4 = 18" using T3(2) T4(2) by simp
  from e5 [rule_format, of 12] len4 pos T4_12
  have T5_12: "T5 ! 12 = k5 / (k7 + k1 + k5) / (k3 + k3)"
    by (simp add: flat_8_6_weights del: Kernel.simps)
  from e5 [rule_format, of 13] len4 pos
  have T5_13: "T5 ! 13 = k3 / (k3 + k3)"
    by (simp add: flat_8_6_weights k3_def [symmetric] del: Kernel.simps)
  from e5 [rule_format, of 14] len4 pos
  have T5_14: "T5 ! 14 = k3 / (k3 + k3)"
    by (simp add: flat_8_6_weights k3_def [symmetric] del: Kernel.simps)
  have len5: "length T5 = 18" using len4 T5(2) by simp
  have fit5: "int (nat (5 * 3)) + (7 + 1 - 5) \<le> int (length T5)" using len5 by simp
  from flat_row_result [where dstIdx = 5 and srcSize = 8 and dstSize = 6 and flt = "Lanczos 1" and weights = "T5", unfolded r, OF fit5]
  obtain T6 where T6: "flat_row 8 6 (Lanczos 1) 5 T5 = Inr T6" "length T6 = length T5"
    and e6: "\<forall>j < length T5. T6 ! j =
                (if nat (5 * 3) \<le> j \<and> int j - int (nat (5 * 3)) \<le> 7 - 5
                 then (if weight_at (Lanczos 1) (4 / 3) (41 / 6) (5 + (int j - int (nat (5 * 3)))) \<noteq> 0
                       then weight_at (Lanczos 1) (4 / 3) (41 / 6) (5 + (int j - int (nat (5 * 3))))
                       else T5 ! j)
                      / (if sum_list (map (weight_at (Lanczos 1) (4 / 3) (41 / 6)) [5 .. 7]) > 0
                         then sum_list (map (weight_at (Lanczos 1) (4 / 3) (41 / 6)) [5 .. 7]) else 1)
                 else T5 ! j)"
    by blast
  from e6 [rule_format, of 12] e6 [rule_format, of 13] e6 [rule_format, of 14] len5
  have same: "T6 ! 12 = T5 ! 12" "T6 ! 13 = T5 ! 13" "T6 ! 14 = T5 ! 14"
    by simp_all
  have "[0 .. 6 - 1 :: int] = [0, 1, 2, 3, 4, 5]" by (simp add: upto.simps)
  with T1(1) T2(1) T3(1) T4(1) T5(1) T6(1)
  have "calculateWeights_flat 8 6 (Lanczos 1) = Inr (Some T6)"
    by (simp add: calculateWeights_flat_def Let_def r)
  with T6(2) len5 same T5_12 T5_13 T5_14 show ?thesis by auto
qed

subsection \<open>What Resize returns on a raster that is not empty\<close>

lemma Resize_fits:
  assumes "0 < Dx (Bounds src)" "0 < Dy (Bounds src)" "0 < w" "0 < h"
    and "rows_fit (Dx (Bounds src)) w (Lanczos 3)"
    and "rows_fit (Dy (Bounds src)) h (Lanczos 3)"
  shows "\<exists>dst. Resize (Some src) w h = Inr (Some dst, None)
             \<and> Dx (NRect dst) = w \<and> Dy (NRect dst) = h"
proof -
  from calculateWeights_fit [OF assms(1,3,5)]
  obtain wx where wx: "calculateWeights (Dx (Bounds src)) w (Lanczos 3) = Inr (Some wx)" by blast
  from calculateWeights_fit [OF assms(2,4,6)]
  obtain wy where wy: "calculateWeights (Dy (Bounds src)) h (Lanczos 3) = Inr (Some wy)" by blast
  show ?thesis
  proof (cases "Dx (Bounds src) = w")
    case same_w: True
    show ?thesis
    proof (cases "Dy (Bounds src) = h")
      case True
      with same_w assms(3,4) show ?thesis
        by (simp add: Resize_def Let_def resizeVertical_copy)
    next
      case False
      from resizeVertical_filtered [OF False wy]
      obtain dst where "resizeVertical src h = Inr (Some dst, None)"
        "NRect dst = Rect 0 0 (Dx (Bounds src)) h" by blast
      with same_w assms(3,4) show ?thesis
        by (simp add: Resize_def Let_def)
    qed
  next
    case diff_w: False
    from resizeHorizontal_filtered [OF diff_w wx]
    obtain mid where mid: "resizeHorizontal src w = Inr (Some mid, None)"
      "NRect mid = Rect 0 0 w (Dy (Bounds src))" by blast
    show ?thesis
    proof (cases "Dy (Bounds src) = h")
      case True
      with diff_w mid assms(3,4) show ?thesis
        by (simp add: Resize_def Let_def)
    next
      case False
      from mid(2) assms(2,3) have b: "Dx (Bounds (asImage mid)) = w"
        "Dy (Bounds (asImage mid)) = Dy (Bounds src)" by simp_all
      from False b have ne: "Dy (Bounds (asImage mid)) \<noteq> h" by simp
      from wy b have wy': "calculateWeights (Dy (Bounds (asImage mid))) h (Lanczos 3) = Inr (Some wy)"
        by simp
      from resizeVertical_filtered [OF ne wy']
      obtain dst where "resizeVertical (asImage mid) h = Inr (Some dst, None)"
        "NRect dst = Rect 0 0 (Dx (Bounds (asImage mid))) h" by blast
      with diff_w False mid(1) b assms(3,4) show ?thesis
        by (simp add: Resize_def Let_def)
    qed
  qed
qed

lemma resizeHorizontal_cases:
  "(\<exists>p. resizeHorizontal src w = Inl p)
   \<or> (resizeHorizontal src w = Inr (None, Some FailedWeightsHorizontal)
       \<and> (Dx (Bounds src) \<le> 0 \<or> w \<le> 0))
   \<or> (\<exists>dst. resizeHorizontal src w = Inr (Some dst, None)
             \<and> NRect dst = Rect 0 0 w (Dy (Bounds src)))"
proof (cases "Dx (Bounds src) = w")
  case True
  then show ?thesis by (simp add: resizeHorizontal_copy)
next
  case False
  show ?thesis
  proof (cases "calculateWeights (Dx (Bounds src)) w (Lanczos 3)")
    case (Inl p)
    with False show ?thesis by (simp add: resizeHorizontal_def Let_def NewLanczos_def)
  next
    case (Inr t)
    show ?thesis
    proof (cases t)
      case None
      with Inr calculateWeights_nil [of "Dx (Bounds src)" w "Lanczos 3"] False show ?thesis
        by (simp add: resizeHorizontal_def Let_def NewLanczos_def)
    next
      case (Some weights)
      with Inr resizeHorizontal_filtered [OF False, of weights] show ?thesis by simp
    qed
  qed
qed

lemma resizeVertical_cases:
  "(\<exists>p. resizeVertical src h = Inl p)
   \<or> (resizeVertical src h = Inr (None, Some FailedWeightsVertical)
       \<and> (Dy (Bounds src) \<le> 0 \<or> h \<le> 0))
   \<or> (\<exists>dst. resizeVertical src h = Inr (Some dst, None)
             \<and> NRect dst = Rect 0 0 (Dx (Bounds src)) h)"
proof (cases "Dy (Bounds src) = h")
  case True
  then show ?thesis by (simp add: resizeVertical_copy)
next
  case False
  show ?thesis
  proof (cases "calculateWeights (Dy (Bounds src)) h (Lanczos 3)")
    case (Inl p)
    with False show ?thesis by (simp add: resizeVertical_def Let_def NewLanczos_def)
  next
    case (Inr t)
    show ?thesis
    proof (cases t)
      case None
      with Inr calculateWeights_nil [of "Dy (Bounds src)" h "Lanczos 3"] False show ?thesis
        by (simp add: resizeVertical_def Let_def NewLanczos_def)
    next
      case (Some weights)
      with Inr resizeVertical_filtered [OF False, of weights] show ?thesis by simp
    qed
  qed
qed

lemma Resize_returns:
  assumes "0 < Dx (Bounds src)" "0 < Dy (Bounds src)" "0 < w" "0 < h"
  shows "(\<exists>p. Resize (Some src) w h = Inl p)
       \<or> (\<exists>dst. Resize (Some src) w h = Inr (Some dst, None)
                 \<and> Dx (NRect dst) = w \<and> Dy (NRect dst) = h)"
proof (cases "Dx (Bounds src) = w")
  case True
  with assms have "Resize (Some src) w h = resizeVertical src h"
    by (simp add: Resize_def Let_def)
  with resizeVertical_cases [of src h] assms True show ?thesis by auto
next
  case diff_w: False
  show ?thesis
  proof (cases "Dy (Bounds src) = h")
    case True
    with diff_w assms have "Resize (Some src) w h = resizeHorizontal src w"
      by (simp add: Resize_def Let_def)
    with resizeHorizontal_cases [of src w] assms True show ?thesis by auto
  next
    case diff_h: False
    from resizeHorizontal_cases [of src w] assms
    consider p where "resizeHorizontal src w = Inl p"
      | mid where "resizeHorizontal src w = Inr (Some mid, None)"
          "NRect mid = Rect 0 0 w (Dy (Bounds src))"
      by auto
    then show ?thesis
    proof cases
      case 1
      with diff_w diff_h assms show ?thesis by (simp add: Resize_def Let_def)
    next
      case 2
      with assms have b: "Dx (Bounds (asImage mid)) = w"
        "Dy (Bounds (asImage mid)) = Dy (Bounds src)" by simp_all
      from 2 diff_w diff_h assms
      have "Resize (Some src) w h = resizeVertical (asImage mid) h"
        by (simp add: Resize_def Let_def)
      with resizeVertical_cases [of "asImage mid" h] b assms show ?thesis by auto
    qed
  qed
qed

section \<open>The claims\<close>

text \<open>
  C1. The claim: for every source raster that is not nil and every \<open>w > 0\<close> and
  \<open>h > 0\<close>, \<^verbatim>\<open>Resize\<close> succeeds and the raster it returns is \<open>w\<close> wide and \<open>h\<close> high.
  The code breaks it: on a raster 13 wide and 1 high, asked for width 8 and height 1,
  \<^verbatim>\<open>Resize\<close> takes the horizontal pass, whose weight table stores the eleventh weight
  of destination index 3 in a row of 10, and stops in a run-time panic.
\<close>

theorem resize_13_to_8_panics:
  "Dx (Bounds (opaque_image 13 1 0)) = 13 \<and> Dy (Bounds (opaque_image 13 1 0)) = 1
   \<and> Resize (Some (opaque_image 13 1 0)) 8 1 = Inl IndexOutOfRange"
proof -
  have d: "Dx (Bounds (opaque_image 13 1 0)) = 13" "Dy (Bounds (opaque_image 13 1 0)) = 1"
    by (simp_all add: Dx_def Dy_def Rect_def opaque_image_def)
  from resizeHorizontal_13_8 [OF d(1)] d
  have "Resize (Some (opaque_image 13 1 0)) 8 1 = Inl IndexOutOfRange"
    by (simp add: Resize_def Let_def)
  with d show ?thesis by simp
qed

text \<open>
  C2, amended. For every source raster (of positive width and height, as every input
  raster is), \<^verbatim>\<open>Resize\<close> to the dimensions of the source succeeds through the direct
  copy, with no filtering, and the raster it returns has the dimensions of the source.
  When the source is an \<^verbatim>\<open>*image.NRGBA\<close>, every pixel has the four bytes, and so the four
  channel values, of the source pixel at the same place, translucent pixels included.
  When the source is of another type, every pixel is the source colour at the same
  place converted to the 8-bit storage of \<^verbatim>\<open>image.NRGBA\<close>, and its four channel values
  are those of the source exactly when that storage holds the colour exactly; it does
  for every opaque colour of 8-bit precision.
\<close>

theorem resize_identity_copy:
  assumes "0 < Dx (Bounds src)" "0 < Dy (Bounds src)"
  shows "\<exists>dst. Resize (Some src) (Dx (Bounds src)) (Dy (Bounds src)) = Inr (Some dst, None)
           \<and> dst = Draw (NewNRGBA (Rect 0 0 (Dx (Bounds src)) (Dy (Bounds src))))
                     (Rect 0 0 (Dx (Bounds src)) (Dy (Bounds src))) src
                     (MinX (Bounds src), MinY (Bounds src))
           \<and> Dx (NRect dst) = Dx (Bounds src) \<and> Dy (NRect dst) = Dy (Bounds src)
           \<and> (\<forall>x y. 0 \<le> x \<and> x < Dx (Bounds src) \<and> 0 \<le> y \<and> y < Dy (Bounds src) \<longrightarrow>
                 (\<forall>s. src = NRGBAPointer s \<longrightarrow>
                    NRGBAAt dst x y
                      = NRGBAAt s (x + MinX (Bounds src)) (y + MinY (Bounds src))
                    \<and> NRGBA_RGBA (NRGBAAt dst x y)
                      = At src (x + MinX (Bounds src)) (y + MinY (Bounds src)))
               \<and> (\<forall>r f. src = OtherImage r f \<longrightarrow>
                    NRGBAAt dst x y
                      = nrgbaModel (At src (x + MinX (Bounds src)) (y + MinY (Bounds src)))
                    \<and> (NRGBA_RGBA (NRGBAAt dst x y)
                         = At src (x + MinX (Bounds src)) (y + MinY (Bounds src))
                       \<longleftrightarrow> nrgba_exact (At src (x + MinX (Bounds src)) (y + MinY (Bounds src))))
                    \<and> (\<forall>r g b. At src (x + MinX (Bounds src)) (y + MinY (Bounds src))
                                  = NRGBA_RGBA (NRGBA r g b 0xff) \<longrightarrow>
                          nrgba_exact (At src (x + MinX (Bounds src)) (y + MinY (Bounds src))))))"
proof -
  let ?dst = "Draw (NewNRGBA (Rect 0 0 (Dx (Bounds src)) (Dy (Bounds src))))
                (Rect 0 0 (Dx (Bounds src)) (Dy (Bounds src))) src
                (MinX (Bounds src), MinY (Bounds src))"
  let ?sx = "\<lambda>x. x + MinX (Bounds src)"
  let ?sy = "\<lambda>y. y + MinY (Bounds src)"
  have res: "Resize (Some src) (Dx (Bounds src)) (Dy (Bounds src)) = Inr (Some ?dst, None)"
    using assms by (simp add: Resize_def Let_def resizeVertical_copy)
  have dims: "Dx (NRect ?dst) = Dx (Bounds src)" "Dy (NRect ?dst) = Dy (Bounds src)"
    using assms by simp_all
  have px: "(\<forall>s. src = NRGBAPointer s \<longrightarrow>
                NRGBAAt ?dst x y = NRGBAAt s (?sx x) (?sy y)
                \<and> NRGBA_RGBA (NRGBAAt ?dst x y) = At src (?sx x) (?sy y))
          \<and> (\<forall>r f. src = OtherImage r f \<longrightarrow>
                NRGBAAt ?dst x y = nrgbaModel (At src (?sx x) (?sy y))
                \<and> (NRGBA_RGBA (NRGBAAt ?dst x y) = At src (?sx x) (?sy y)
                   \<longleftrightarrow> nrgba_exact (At src (?sx x) (?sy y)))
                \<and> (\<forall>r g b. At src (?sx x) (?sy y) = NRGBA_RGBA (NRGBA r g b 0xff) \<longrightarrow>
                      nrgba_exact (At src (?sx x) (?sy y))))"
    if range: "0 \<le> x \<and> x < Dx (Bounds src) \<and> 0 \<le> y \<and> y < Dy (Bounds src)" for x y
  proof -
    from range have eq: "NRGBAAt ?dst x y = source_pixel src (?sx x) (?sy y)"
      by (intro Draw_pixel) simp_all
    show ?thesis
    proof (cases src)
      case (NRGBAPointer s)
      with range have "source_pixel src (?sx x) (?sy y) = NRGBAAt s (?sx x) (?sy y)"
        using source_pixel_NRGBA [of x s y] by simp
      with eq NRGBAPointer show ?thesis by simp
    next
      case (OtherImage r f)
      with eq have "NRGBAAt ?dst x y = nrgbaModel (At src (?sx x) (?sy y))"
        by (simp add: source_pixel_Other)
      with OtherImage show ?thesis
        by (simp add: nrgba_exact_def nrgbaModel_opaque_roundtrip)
    qed
  qed
  from res dims px show ?thesis by blast
qed

theorem resize_identity_copy_witness:
  "(\<exists>dst. Resize (Some translucent_image) 1 1 = Inr (Some dst, None)
          \<and> NRGBAAt dst 0 0 = NRGBA 1 0 0 1
          \<and> NRGBA_RGBA (NRGBAAt dst 0 0) = At translucent_image 0 0)
   \<and> (\<exists>dst. Resize (Some (opaque_image 2 2 0xffff)) 2 2 = Inr (Some dst, None)
          \<and> NRGBAAt dst 1 1 = NRGBA 0xff 0xff 0xff 0xff
          \<and> NRGBA_RGBA (NRGBAAt dst 1 1) = At (opaque_image 2 2 0xffff) 1 1)"
proof
  let ?img = "translucent_image"
  let ?s = "\<lparr>NRect = Rect 0 0 1 1, Pix = (\<lambda>p. NRGBA 1 0 0 1)\<rparr>"
  have d: "Dx (Bounds ?img) = 1" "Dy (Bounds ?img) = 1"
    "MinX (Bounds ?img) = 0" "MinY (Bounds ?img) = 0"
    by (simp_all add: translucent_image_def Dx_def Dy_def Rect_def)
  have pos: "0 < Dx (Bounds ?img)" "0 < Dy (Bounds ?img)" unfolding d by simp_all
  from resize_identity_copy [OF pos, unfolded d]
  obtain dst where res: "Resize (Some ?img) 1 1 = Inr (Some dst, None)"
    and px: "\<forall>x y. 0 \<le> x \<and> x < 1 \<and> 0 \<le> y \<and> y < 1 \<longrightarrow>
           (\<forall>s. ?img = NRGBAPointer s \<longrightarrow>
              NRGBAAt dst x y = NRGBAAt s (x + 0) (y + 0)
              \<and> NRGBA_RGBA (NRGBAAt dst x y) = At ?img (x + 0) (y + 0))
         \<and> (\<forall>r f. ?img = OtherImage r f \<longrightarrow>
              NRGBAAt dst x y = nrgbaModel (At ?img (x + 0) (y + 0))
              \<and> (NRGBA_RGBA (NRGBAAt dst x y) = At ?img (x + 0) (y + 0)
                 \<longleftrightarrow> nrgba_exact (At ?img (x + 0) (y + 0)))
              \<and> (\<forall>r g b. At ?img (x + 0) (y + 0) = NRGBA_RGBA (NRGBA r g b 0xff) \<longrightarrow>
                    nrgba_exact (At ?img (x + 0) (y + 0))))"
    by blast
  have in_range: "(0::int) \<le> 0 \<and> (0::int) < 1 \<and> (0::int) \<le> 0 \<and> (0::int) < 1" by simp
  have is_nrgba: "?img = NRGBAPointer ?s" by (simp add: translucent_image_def)
  note at_0_0 = px [rule_format, OF in_range, THEN conjunct1, rule_format, OF is_nrgba,
      unfolded add_0_right]
  from at_0_0 have p1: "NRGBAAt dst 0 0 = NRGBAAt ?s 0 0" by (rule conjunct1)
  from at_0_0 have p2: "NRGBA_RGBA (NRGBAAt dst 0 0) = At ?img 0 0" by (rule conjunct2)
  have "NRGBAAt ?s 0 0 = NRGBA 1 0 0 1"
    by (simp add: NRGBAAt_def In_def Rect_def)
  with res p1 p2
  show "\<exists>dst. Resize (Some ?img) 1 1 = Inr (Some dst, None)
          \<and> NRGBAAt dst 0 0 = NRGBA 1 0 0 1
          \<and> NRGBA_RGBA (NRGBAAt dst 0 0) = At ?img 0 0"
    by auto
next
  let ?img = "opaque_image 2 2 0xffff"
  have d: "Dx (Bounds ?img) = 2" "Dy (Bounds ?img) = 2"
    "MinX (Bounds ?img) = 0" "MinY (Bounds ?img) = 0"
    by (simp_all add: opaque_image_def Dx_def Dy_def Rect_def)
  have white: "At ?img 1 1 = NRGBA_RGBA (NRGBA 0xff 0xff 0xff 0xff)"
    by (simp add: opaque_image_def NRGBA_RGBA_def nrgba_channel_def)
  have conv: "nrgbaModel (At ?img 1 1) = NRGBA 0xff 0xff 0xff 0xff"
    by (simp add: opaque_image_def nrgbaModel_def)
  have pos: "0 < Dx (Bounds ?img)" "0 < Dy (Bounds ?img)" unfolding d by simp_all
  from resize_identity_copy [OF pos, unfolded d]
  obtain dst where res: "Resize (Some ?img) 2 2 = Inr (Some dst, None)"
    and px: "\<forall>x y. 0 \<le> x \<and> x < 2 \<and> 0 \<le> y \<and> y < 2 \<longrightarrow>
           (\<forall>s. ?img = NRGBAPointer s \<longrightarrow>
              NRGBAAt dst x y = NRGBAAt s (x + 0) (y + 0)
              \<and> NRGBA_RGBA (NRGBAAt dst x y) = At ?img (x + 0) (y + 0))
         \<and> (\<forall>r f. ?img = OtherImage r f \<longrightarrow>
              NRGBAAt dst x y = nrgbaModel (At ?img (x + 0) (y + 0))
              \<and> (NRGBA_RGBA (NRGBAAt dst x y) = At ?img (x + 0) (y + 0)
                 \<longleftrightarrow> nrgba_exact (At ?img (x + 0) (y + 0)))
              \<and> (\<forall>r g b. At ?img (x + 0) (y + 0) = NRGBA_RGBA (NRGBA r g b 0xff) \<longrightarrow>
                    nrgba_exact (At ?img (x + 0) (y + 0))))"
    by blast
  have in_range: "(0::int) \<le> 1 \<and> (1::int) < 2 \<and> (0::int) \<le> 1 \<and> (1::int) < 2" by simp
  have is_other: "?img = OtherImage (Rect 0 0 2 2) (\<lambda>x y. (0xffff, 0xffff, 0xffff, 0xffff))"
    by (simp add: opaque_image_def)
  note at_1_1 = px [rule_format, OF in_range, THEN conjunct2, rule_format, OF is_other,
      unfolded add_0_right]
  from at_1_1 have p1: "NRGBAAt dst 1 1 = nrgbaModel (At ?img 1 1)"
    by (rule conjunct1)
  from at_1_1
  have p2: "NRGBA_RGBA (NRGBAAt dst 1 1) = At ?img 1 1 \<longleftrightarrow> nrgba_exact (At ?img 1 1)"
    by (rule conjunct2 [THEN conjunct1])
  from at_1_1
  have p3: "\<forall>r g b. At ?img 1 1 = NRGBA_RGBA (NRGBA r g b 0xff) \<longrightarrow> nrgba_exact (At ?img 1 1)"
    by (rule conjunct2 [THEN conjunct2])
  from p3 white have "nrgba_exact (At ?img 1 1)" by blast
  with p2 have "NRGBA_RGBA (NRGBAAt dst 1 1) = At ?img 1 1" by blast
  with res p1 conv
  show "\<exists>dst. Resize (Some ?img) 2 2 = Inr (Some dst, None)
          \<and> NRGBAAt dst 1 1 = NRGBA 0xff 0xff 0xff 0xff
          \<and> NRGBA_RGBA (NRGBAAt dst 1 1) = At ?img 1 1"
    by auto
qed

theorem resize_identity_copy_counterexample:
  "Resize (Some (opaque_image 1 1 0x1234)) (Dx (Bounds (opaque_image 1 1 0x1234)))
       (Dy (Bounds (opaque_image 1 1 0x1234)))
     = Inr (Some (Draw (NewNRGBA (Rect 0 0 1 1)) (Rect 0 0 1 1) (opaque_image 1 1 0x1234) (0, 0)),
            None)
   \<and> NRGBA_RGBA (NRGBAAt (Draw (NewNRGBA (Rect 0 0 1 1)) (Rect 0 0 1 1)
                              (opaque_image 1 1 0x1234) (0, 0)) 0 0)
       = (0x1212, 0x1212, 0x1212, 0xffff)
   \<and> At (opaque_image 1 1 0x1234) 0 0 = (0x1234, 0x1234, 0x1234, 0xffff)"
proof -
  have d: "Dx (Bounds (opaque_image 1 1 0x1234)) = 1" "Dy (Bounds (opaque_image 1 1 0x1234)) = 1"
    "MinX (Bounds (opaque_image 1 1 0x1234)) = 0" "MinY (Bounds (opaque_image 1 1 0x1234)) = 0"
    by (simp_all add: opaque_image_def Dx_def Dy_def Rect_def)
  have a: "Resize (Some (opaque_image 1 1 0x1234)) 1 1
     = Inr (Some (Draw (NewNRGBA (Rect 0 0 1 1)) (Rect 0 0 1 1) (opaque_image 1 1 0x1234) (0, 0)),
            None)"
    using resizeVertical_copy [of "opaque_image 1 1 0x1234" 1] d
    by (simp add: Resize_def Let_def)
  have "NRGBAAt (Draw (NewNRGBA (Rect 0 0 1 1)) (Rect 0 0 1 1) (opaque_image 1 1 0x1234) (0, 0)) 0 0
          = nrgbaModel (0x1234, 0x1234, 0x1234, 0xffff)"
    using Draw_pixel [of 0 "opaque_image 1 1 0x1234" 0] d
    by (simp add: opaque_image_def source_pixel_Other)
  then have b: "NRGBA_RGBA (NRGBAAt (Draw (NewNRGBA (Rect 0 0 1 1)) (Rect 0 0 1 1)
                              (opaque_image 1 1 0x1234) (0, 0)) 0 0)
       = (0x1212, 0x1212, 0x1212, 0xffff)"
    by (simp add: deep_pixel)
  have c: "At (opaque_image 1 1 0x1234) 0 0 = (0x1234, 0x1234, 0x1234, 0xffff)"
    by (simp add: opaque_image_def)
  from a b c show ?thesis unfolding d by blast
qed

text \<open>
  C3. The claim: the weights of every destination index of a built table sum to 1
  (within 0.01) whenever one of them is not zero. The second copy of the builder breaks
  it: from 8 source pixels to 6 with radius 1, a row holds 3 weights; the range of
  destination index 3 holds 4 indices, and the weight of its last index lands in the
  first slot of destination index 4, whose own first weight is zero and does not
  replace it. That slot is then divided by the sums of both rows, and the three weights
  of destination index 4 sum to more than 1.01.
\<close>

theorem flat_table_row_not_normalized:
  "\<exists>weights. calculateWeights_flat 8 6 (Lanczos 1) = Inr (Some weights)
     \<and> length weights = 6 * 3
     \<and> weights ! (4 * 3 + 1) \<noteq> 0
     \<and> 1 + 1 / 100 < weights ! (4 * 3) + weights ! (4 * 3 + 1) + weights ! (4 * 3 + 2)"
proof -
  define k1 where "k1 = Kernel (Lanczos 1) (1 / 8)"
  define k3 where "k3 = Kernel (Lanczos 1) (3 / 8)"
  define k5 where "k5 = Kernel (Lanczos 1) (5 / 8)"
  define k7 where "k7 = Kernel (Lanczos 1) (7 / 8)"
  from flat_8_6_table obtain weights where
    w: "calculateWeights_flat 8 6 (Lanczos 1) = Inr (Some weights)" "length weights = 18"
    and e: "weights ! 12 = k5 / (k7 + k1 + k5) / (k3 + k3)"
      "weights ! 13 = k3 / (k3 + k3)" "weights ! 14 = k3 / (k3 + k3)"
    unfolding k1_def k3_def k5_def k7_def by blast
  have pos: "0 < k1" "0 < k3" "0 < k5" "0 < k7"
    and le: "k1 \<le> 1" "k3 \<le> 1" "k5 \<le> 1" "k7 \<le> 1"
    unfolding k1_def k3_def k5_def k7_def
    by (simp_all add: Kernel_Lanczos1_bounds del: Kernel.simps)
  have k5: "2 / 25 \<le> k5" unfolding k5_def by (rule Kernel_5_8_lower)
  have half: "k3 / (k3 + k3) = 1 / 2" using pos(2) by (simp add: field_simps)
  have "(k7 + k1 + k5) * (k3 + k3) \<le> 3 * 2"
    using pos le by (intro mult_mono) simp_all
  moreover have dpos: "0 < (k7 + k1 + k5) * (k3 + k3)" using pos by simp
  ultimately have "(2 / 25) / (3 * 2) \<le> k5 / ((k7 + k1 + k5) * (k3 + k3))"
    using k5 by (intro frac_le) simp_all
  moreover have "(1 / 100 :: real) < (2 / 25) / (3 * 2)" by simp
  ultimately have "1 / 100 < k5 / ((k7 + k1 + k5) * (k3 + k3))" by (rule less_le_trans [rotated])
  moreover have "k5 / (k7 + k1 + k5) / (k3 + k3) = k5 / ((k7 + k1 + k5) * (k3 + k3))"
    by (simp only: divide_divide_eq_left)
  ultimately have "1 / 100 < weights ! 12" by (simp only: e(1))
  with e(2,3) half pos(2) w show ?thesis by (intro exI [of _ weights]) simp
qed



text \<open>
  C5. The claim: for every source and destination length of at least 1, every Lanczos
  radius of at least 1 and every destination index, the clipped range holds at most
  \<^verbatim>\<open>weightsPerPixel\<close> indices, so that no store of \<^verbatim>\<open>calculateWeights\<close> leaves the row.
  The code breaks it: from 13 source pixels to 8 with radius 3, the range of destination
  index 3 holds 11 indices, the row 10 weights, the weight of the last index is not
  zero, and the store panics.
\<close>

theorem calculateWeights_row_overflow:
  "right_of 13 (center_of (scale_of 13 8) 3)
       (support_of (filterRadius_of (Lanczos 3)) (scale_of 13 8))
     - left_of (center_of (scale_of 13 8) 3)
         (support_of (filterRadius_of (Lanczos 3)) (scale_of 13 8)) + 1 = 11
   \<and> weightsPerPixel_of (support_of (filterRadius_of (Lanczos 3)) (scale_of 13 8)) = 10
   \<and> calculateWeights 13 8 (Lanczos 3) = Inl IndexOutOfRange"
  using calculateWeights_13_8 by (simp add: range_defs)

text \<open>
  C6. The support radius of the weight-table builder is the kernel radius when the
  scale is at most 1 and the radius times the scale when it is greater; the weight of a
  contributing source index \<open>s\<close> is the kernel at \<open>(s - center) / scale\<close> when the
  scale is greater than 1 and at \<open>s - center\<close> otherwise, divided by the sum of these
  weights when that sum is positive.
\<close>

theorem support_and_kernel_argument:
  assumes "1 \<le> srcSize" "1 \<le> dstSize" "0 \<le> d" "d < dstSize"
    and "calculateWeights srcSize dstSize flt = Inr (Some weights)"
  shows "let scale = scale_of srcSize dstSize;
             radius = filterRadius_of flt;
             support = support_of radius scale;
             center = center_of scale d;
             left = left_of center support;
             right = right_of srcSize center support;
             weightSum = sum_list (map (weight_at flt scale center) [left .. right])
         in scale = real_of_int srcSize / real_of_int dstSize
          \<and> support = (if scale \<le> 1 then radius else radius * scale)
          \<and> (\<forall>s. weight_at flt scale center s =
                (if scale > 1 then Kernel flt ((real_of_int s - center) / scale)
                 else Kernel flt (real_of_int s - center)))
          \<and> int (length (weights ! nat d)) = go_int (2 * support) + 1
          \<and> (\<forall>s. left \<le> s \<and> s \<le> right \<longrightarrow>
                (if s - left < int (length (weights ! nat d))
                 then weights ! nat d ! nat (s - left)
                        = (if weightSum > 0 then weight_at flt scale center s / weightSum
                           else weight_at flt scale center s)
                 else weight_at flt scale center s = 0))"
proof -
  define scale where "scale = scale_of srcSize dstSize"
  define support where "support = support_of (filterRadius_of flt) scale"
  define center where "center = center_of scale d"
  define left where "left = left_of center support"
  define right where "right = right_of srcSize center support"
  define weightSum where "weightSum = sum_list (map (weight_at flt scale center) [left .. right])"
  note defs = scale_def support_def center_def left_def right_def weightSum_def
  from calculateWeights_rows [OF assms(5)] assms(3,4)
  have row: "weights_row srcSize dstSize flt d = Inr (weights ! nat d)" by simp
  have e1: "int (length (weights ! nat d)) = weightsPerPixel_of support"
    using weights_row_entries(1) [OF row] by (simp add: defs)
  have e2: "weights ! nat d ! nat (s - left) =
             (if weightSum > 0 then weight_at flt scale center s / weightSum
              else weight_at flt scale center s)"
    if "left \<le> s" "s \<le> right" "s - left < int (length (weights ! nat d))" for s
    using weights_row_entries(2) [OF row, of s] that by (simp add: defs)
  have e3: "weight_at flt scale center s = 0"
    if "left \<le> s" "s \<le> right" "int (length (weights ! nat d)) \<le> s - left" for s
    using weights_row_entries(3) [OF row, of s] that by (simp add: defs)
  have "scale = real_of_int srcSize / real_of_int dstSize
        \<and> support = (if scale \<le> 1 then filterRadius_of flt else filterRadius_of flt * scale)
        \<and> (\<forall>s. weight_at flt scale center s =
                (if scale > 1 then Kernel flt ((real_of_int s - center) / scale)
                 else Kernel flt (real_of_int s - center)))
        \<and> int (length (weights ! nat d)) = go_int (2 * support) + 1
        \<and> (\<forall>s. left \<le> s \<and> s \<le> right \<longrightarrow>
              (if s - left < int (length (weights ! nat d))
               then weights ! nat d ! nat (s - left)
                      = (if weightSum > 0 then weight_at flt scale center s / weightSum
                         else weight_at flt scale center s)
               else weight_at flt scale center s = 0))"
  proof (intro conjI allI impI)
    show "scale = real_of_int srcSize / real_of_int dstSize"
      by (simp add: scale_def scale_of_def)
    show "support = (if scale \<le> 1 then filterRadius_of flt else filterRadius_of flt * scale)"
      by (simp add: support_def support_of_def)
    show "weight_at flt scale center s =
                (if scale > 1 then Kernel flt ((real_of_int s - center) / scale)
                 else Kernel flt (real_of_int s - center))" for s
      by (simp add: weight_at_def)
    show "int (length (weights ! nat d)) = go_int (2 * support) + 1"
      using e1 by (simp add: weightsPerPixel_of_def)
  next
    fix s assume "left \<le> s \<and> s \<le> right"
    then show "if s - left < int (length (weights ! nat d))
               then weights ! nat d ! nat (s - left)
                      = (if weightSum > 0 then weight_at flt scale center s / weightSum
                         else weight_at flt scale center s)
               else weight_at flt scale center s = 0"
      using e2 [of s] e3 [of s] by (cases "s - left < int (length (weights ! nat d))") simp_all
  qed
  then show ?thesis
    unfolding Let_def defs .
qed


theorem support_and_kernel_argument_witness:
  "(\<exists>weights. calculateWeights 2 1 (Lanczos 3) = Inr (Some weights)
       \<and> support_of (filterRadius_of (Lanczos 3)) (scale_of 2 1) = 6
       \<and> length (weights ! 0) = 13
       \<and> weights ! 0 ! 0 = 1 / 2 \<and> weights ! 0 ! 1 = 1 / 2)
   \<and> (\<exists>weights. calculateWeights 1 2 (Lanczos 3) = Inr (Some weights)
       \<and> support_of (filterRadius_of (Lanczos 3)) (scale_of 1 2) = 3
       \<and> length (weights ! 0) = 7
       \<and> weights ! 0 ! 0 = 1)"
proof
  have fit: "rows_fit 2 1 (Lanczos 3)"
    by (simp add: rows_fit_def row_fits_def range_defs)
  from calculateWeights_fit [OF _ _ fit]
  obtain weights where w: "calculateWeights 2 1 (Lanczos 3) = Inr (Some weights)" by auto
  have rng: "scale_of 2 1 = 2" "support_of (filterRadius_of (Lanczos 3)) 2 = 6"
    "center_of 2 0 = 1 / 2" "left_of (1 / 2) 6 = 0" "right_of 2 (1 / 2) 6 = 1"
    by (simp_all add: range_defs)
  have up: "[0 .. 1 :: int] = [0, 1]" by (simp add: upto.simps)
  let ?K = "Kernel (Lanczos 3) (1 / 4)"
  have wa: "weight_at (Lanczos 3) 2 (1 / 2) 0 = ?K" "weight_at (Lanczos 3) 2 (1 / 2) 1 = ?K"
    using Kernel_minus_quarter by (simp_all add: weight_at_def del: Kernel.simps)
  have idx: "(1::int) \<le> 2" "(1::int) \<le> 1" "(0::int) \<le> 0" "(0::int) < 1" by simp_all
  note inst = support_and_kernel_argument [OF idx w, unfolded Let_def rng up]
  note tl = inst [THEN conjunct2, THEN conjunct2, THEN conjunct2]
  from tl [THEN conjunct1] have len: "length (weights ! 0) = 13"
    by (simp add: go_int_def)
  from tl [THEN conjunct2, rule_format, of 0] len Kernel_quarter_pos
  have e0: "weights ! 0 ! 0 = 1 / 2"
    by (simp add: wa del: Kernel.simps)
  from tl [THEN conjunct2, rule_format, of 1] len Kernel_quarter_pos
  have e1: "weights ! 0 ! 1 = 1 / 2"
    by (simp add: wa del: Kernel.simps)
  have sup: "support_of (filterRadius_of (Lanczos 3)) (scale_of 2 1) = 6"
    by (simp add: range_defs)
  from w len sup e0 e1
  show "\<exists>weights. calculateWeights 2 1 (Lanczos 3) = Inr (Some weights)
       \<and> support_of (filterRadius_of (Lanczos 3)) (scale_of 2 1) = 6
       \<and> length (weights ! 0) = 13
       \<and> weights ! 0 ! 0 = 1 / 2 \<and> weights ! 0 ! 1 = 1 / 2"
    by (intro exI [of _ weights]) (simp del: Kernel.simps)
next
  have fit: "rows_fit 1 2 (Lanczos 3)"
    by (simp add: rows_fit_def row_fits_def range_defs upto.simps)
  from calculateWeights_fit [OF _ _ fit]
  obtain weights where w: "calculateWeights 1 2 (Lanczos 3) = Inr (Some weights)" by auto
  have rng: "scale_of 1 2 = 1 / 2" "support_of (filterRadius_of (Lanczos 3)) (1 / 2) = 3"
    "center_of (1 / 2) 0 = - (1 / 4)" "left_of (- (1 / 4)) 3 = 0" "right_of 1 (- (1 / 4)) 3 = 0"
    by (simp_all add: range_defs)
  have up: "[0 .. 0 :: int] = [0]" by (simp add: upto.simps)
  let ?K = "Kernel (Lanczos 3) (1 / 4)"
  have wa: "weight_at (Lanczos 3) (1 / 2) (- (1 / 4)) 0 = ?K"
    by (simp add: weight_at_def del: Kernel.simps)
  have idx: "(1::int) \<le> 1" "(1::int) \<le> 2" "(0::int) \<le> 0" "(0::int) < 2" by simp_all
  note inst = support_and_kernel_argument [OF idx w, unfolded Let_def rng up]
  note tl = inst [THEN conjunct2, THEN conjunct2, THEN conjunct2]
  from tl [THEN conjunct1] have len: "length (weights ! 0) = 7"
    by (simp add: go_int_def)
  from tl [THEN conjunct2, rule_format, of 0] len Kernel_quarter_pos
  have e0: "weights ! 0 ! 0 = 1"
    by (simp add: wa del: Kernel.simps)
  have sup: "support_of (filterRadius_of (Lanczos 3)) (scale_of 1 2) = 3"
    by (simp add: range_defs)
  from w len sup e0
  show "\<exists>weights. calculateWeights 1 2 (Lanczos 3) = Inr (Some weights)
       \<and> support_of (filterRadius_of (Lanczos 3)) (scale_of 1 2) = 3
       \<and> length (weights ! 0) = 7
       \<and> weights ! 0 ! 0 = 1"
    by (intro exI [of _ weights]) (simp del: Kernel.simps)
qed

text \<open>
  C7. On the filtered path each accumulated channel is clamped to \<open>[0, 65535]\<close> before
  it is narrowed to \<^verbatim>\<open>uint16\<close>: the narrowing does not wrap, and every channel of the
  pixel stored in the output raster lies in \<open>[0, 65535]\<close>, whatever the source pixels and
  the weights are.
\<close>

theorem filtered_channels_clamped:
  assumes "filtered_color flt srcAt weights srcSize dstSize d = Inr (c, reads)"
  shows "\<exists>r g b a.
           fst (accumulate srcAt (weights ! nat d)
                  (right_of srcSize (center_of (scale_of srcSize dstSize) d)
                     (support_of (real_of_int (Radius flt)) (scale_of srcSize dstSize)))
                  (left_of (center_of (scale_of srcSize dstSize) d)
                     (support_of (real_of_int (Radius flt)) (scale_of srcSize dstSize)))
                  0 ((0, 0, 0, 0), [])) = (r, g, b, a)
         \<and> 0 \<le> clamp r \<and> clamp r \<le> 65535 \<and> uint (R16 c) = \<lfloor>clamp r\<rfloor>
         \<and> 0 \<le> clamp g \<and> clamp g \<le> 65535 \<and> uint (G16 c) = \<lfloor>clamp g\<rfloor>
         \<and> 0 \<le> clamp b \<and> clamp b \<le> 65535 \<and> uint (B16 c) = \<lfloor>clamp b\<rfloor>
         \<and> 0 \<le> clamp a \<and> clamp a \<le> 65535 \<and> uint (A16 c) = \<lfloor>clamp a\<rfloor>
         \<and> (case NRGBA_RGBA (nrgbaModel (NRGBA64_RGBA c)) of (r', g', b', a') \<Rightarrow>
               unat r' \<le> 65535 \<and> unat g' \<le> 65535 \<and> unat b' \<le> 65535 \<and> unat a' \<le> 65535)
         \<and> (\<forall>src n dst x y.
               resizeVertical src n = Inr (Some dst, None)
               \<or> resizeHorizontal src n = Inr (Some dst, None) \<longrightarrow>
               (case NRGBA_RGBA (NRGBAAt dst x y) of (r', g', b', a') \<Rightarrow>
                  unat r' \<le> 65535 \<and> unat g' \<le> 65535 \<and> unat b' \<le> 65535
                  \<and> unat a' \<le> 65535))"
proof -
  let ?acc = "accumulate srcAt (weights ! nat d)
                  (right_of srcSize (center_of (scale_of srcSize dstSize) d)
                     (support_of (real_of_int (Radius flt)) (scale_of srcSize dstSize)))
                  (left_of (center_of (scale_of srcSize dstSize) d)
                     (support_of (real_of_int (Radius flt)) (scale_of srcSize dstSize)))
                  0 ((0, 0, 0, 0), [])"
  obtain r g b a where acc: "fst ?acc = (r, g, b, a)"
    by (metis prod.exhaust)
  from assms acc have c: "c = NRGBA64 (go_uint16 (clamp r)) (go_uint16 (clamp g))
                               (go_uint16 (clamp b)) (go_uint16 (clamp a))"
    by (auto simp: filtered_color_def Let_def split: if_splits prod.splits)
  have every: "\<forall>src n dst x y.
               resizeVertical src n = Inr (Some dst, None)
               \<or> resizeHorizontal src n = Inr (Some dst, None) \<longrightarrow>
               (case NRGBA_RGBA (NRGBAAt dst x y) of (r', g', b', a') \<Rightarrow>
                  unat r' \<le> 65535 \<and> unat g' \<le> 65535 \<and> unat b' \<le> 65535
                  \<and> unat a' \<le> 65535)"
    by (intro allI impI) (rule stored_pixel_bounds)
  show ?thesis
    using acc clamp_range [of r] clamp_range [of g] clamp_range [of b] clamp_range [of a]
      stored_pixel_bounds [of "nrgbaModel (NRGBA64_RGBA c)"] every
    by (intro exI [of _ r] exI [of _ g] exI [of _ b] exI [of _ a])
      (simp add: c uint_go_uint16_clamp)
qed

theorem filtered_channels_clamped_witness:
  "filtered_color (Lanczos 3) (\<lambda>s. (0xffff, 0xffff, 0xffff, 0xffff)) [[2, 0, 0, 0, 0, 0, 0]] 1 1 0
     = Inr (NRGBA64 0xffff 0xffff 0xffff 0xffff, [0])
   \<and> filtered_color (Lanczos 3) (\<lambda>s. (0xffff, 0xffff, 0xffff, 0xffff)) [[- 1, 0, 0, 0, 0, 0, 0]] 1 1 0
     = Inr (NRGBA64 0 0 0 0, [0])
   \<and> uint (R16 (NRGBA64 0xffff 0xffff 0xffff 0xffff)) = \<lfloor>clamp 131070\<rfloor>
   \<and> uint (R16 (NRGBA64 0 0 0 0)) = \<lfloor>clamp (- 65535)\<rfloor>"
proof -
  let ?at = "\<lambda>s::int. (0xffff :: 32 word, 0xffff :: 32 word, 0xffff :: 32 word, 0xffff :: 32 word)"
  have rng: "right_of 1 (center_of (scale_of 1 1) 0) (support_of 3 (scale_of 1 1)) = 0"
    "left_of (center_of (scale_of 1 1) 0) (support_of 3 (scale_of 1 1)) = 0"
    by (simp_all add: range_defs)
  have over: "accumulate ?at [2, 0, 0, 0, 0, 0, 0] 0 0 0 ((0, 0, 0, 0), [])
                = ((131070, 131070, 131070, 131070), [0])"
    by (simp add: accumulate.simps add_weighted_def)
  have under: "accumulate ?at [- 1, 0, 0, 0, 0, 0, 0] 0 0 0 ((0, 0, 0, 0), [])
                = ((- 65535, - 65535, - 65535, - 65535), [0])"
    by (simp add: accumulate.simps add_weighted_def)
  have a: "filtered_color (Lanczos 3) ?at [[2, 0, 0, 0, 0, 0, 0]] 1 1 0
             = Inr (NRGBA64 0xffff 0xffff 0xffff 0xffff, [0])"
    by (simp add: filtered_color_def Let_def rng over clamp_def go_uint16_def go_int_def)
  have b: "filtered_color (Lanczos 3) ?at [[- 1, 0, 0, 0, 0, 0, 0]] 1 1 0
             = Inr (NRGBA64 0 0 0 0, [0])"
    by (simp add: filtered_color_def Let_def rng under clamp_def go_uint16_def go_int_def)
  from filtered_channels_clamped [OF a] filtered_channels_clamped [OF b] a b
  show ?thesis by (simp add: rng over under)
qed

text \<open>
  C8. \<^verbatim>\<open>Resize\<close> fails with the nil-source error exactly when the source is \<^verbatim>\<open>nil\<close>,
  and with the invalid-dimensions error exactly when the source is present and the
  width or the height is not positive; the nil check comes first; no raster is
  returned with an error; \<^verbatim>\<open>calculateWeights\<close> returns the \<^verbatim>\<open>nil\<close> table exactly when
  its source or destination length is not positive.
\<close>

theorem resize_error_contract:
  "((\<exists>r. Resize src w h = Inr (r, Some SourceImageIsNil)) \<longleftrightarrow> src = None)
   \<and> ((\<exists>r w' h'. Resize src w h = Inr (r, Some (InvalidDimensions w' h')))
        \<longleftrightarrow> src \<noteq> None \<and> (w \<le> 0 \<or> h \<le> 0))
   \<and> (\<forall>r e. Resize src w h = Inr (r, Some e) \<longrightarrow> r = None)
   \<and> Resize None w h = Inr (None, Some SourceImageIsNil)
   \<and> (calculateWeights srcSize dstSize flt = Inr None \<longleftrightarrow> srcSize \<le> 0 \<or> dstSize \<le> 0)"
proof (intro conjI)
  show "(\<exists>r. Resize src w h = Inr (r, Some SourceImageIsNil)) \<longleftrightarrow> src = None"
  proof
    assume "\<exists>r. Resize src w h = Inr (r, Some SourceImageIsNil)"
    then show "src = None" using Resize_error by blast
  next
    assume "src = None"
    then show "\<exists>r. Resize src w h = Inr (r, Some SourceImageIsNil)"
      by (simp add: Resize_def)
  qed
  show "(\<exists>r w' h'. Resize src w h = Inr (r, Some (InvalidDimensions w' h')))
        \<longleftrightarrow> src \<noteq> None \<and> (w \<le> 0 \<or> h \<le> 0)"
  proof
    assume "\<exists>r w' h'. Resize src w h = Inr (r, Some (InvalidDimensions w' h'))"
    then show "src \<noteq> None \<and> (w \<le> 0 \<or> h \<le> 0)" using Resize_error by blast
  next
    assume "src \<noteq> None \<and> (w \<le> 0 \<or> h \<le> 0)"
    then show "\<exists>r w' h'. Resize src w h = Inr (r, Some (InvalidDimensions w' h'))"
      by (auto simp: Resize_def)
  qed
  show "\<forall>r e. Resize src w h = Inr (r, Some e) \<longrightarrow> r = None"
    using Resize_error by blast
  show "Resize None w h = Inr (None, Some SourceImageIsNil)"
    by (simp add: Resize_def)
  show "calculateWeights srcSize dstSize flt = Inr None \<longleftrightarrow> srcSize \<le> 0 \<or> dstSize \<le> 0"
    by (rule calculateWeights_nil)
qed

theorem resize_error_contract_witness:
  "Resize None 10 10 = Inr (None, Some SourceImageIsNil)
   \<and> (\<exists>r w' h'. Resize (Some (OtherImage (Rect 0 0 4 4) (\<lambda>x y. (0, 0, 0, 0xffff)))) 0 5
                   = Inr (r, Some (InvalidDimensions w' h')))
   \<and> (\<exists>r w' h'. Resize (Some (OtherImage (Rect 0 0 4 4) (\<lambda>x y. (0, 0, 0, 0xffff)))) 5 (- 1)
                   = Inr (r, Some (InvalidDimensions w' h')))
   \<and> calculateWeights 0 10 (Lanczos 2) = Inr None"
  using resize_error_contract [of None 10 10 0 10 "Lanczos 2"]
    resize_error_contract
      [of "Some (OtherImage (Rect 0 0 4 4) (\<lambda>x y. (0, 0, 0, 0xffff)))" 0 5 0 10 "Lanczos 2"]
    resize_error_contract
      [of "Some (OtherImage (Rect 0 0 4 4) (\<lambda>x y. (0, 0, 0, 0xffff)))" 5 "- 1" 0 10 "Lanczos 2"]
  by simp

text \<open>
  C9. With a source and positive target dimensions: when both dimensions differ, the
  horizontal pass runs first and the vertical pass runs on its result; when only the
  width differs, the horizontal pass runs alone; otherwise the vertical pass runs alone,
  and it is the direct copy when the height matches too.
\<close>

theorem resize_pass_order:
  assumes "0 < w" "0 < h"
  shows "(Dx (Bounds src) \<noteq> w \<and> Dy (Bounds src) \<noteq> h \<longrightarrow>
            (\<forall>mid. resizeHorizontal src w = Inr (Some mid, None) \<longrightarrow>
               Resize (Some src) w h = resizeVertical (asImage mid) h)
          \<and> (\<forall>r e. resizeHorizontal src w = Inr (r, Some e) \<longrightarrow>
               Resize (Some src) w h = Inr (None, Some e))
          \<and> (\<forall>p. resizeHorizontal src w = Inl p \<longrightarrow> Resize (Some src) w h = Inl p))
       \<and> (Dx (Bounds src) \<noteq> w \<and> Dy (Bounds src) = h \<longrightarrow>
            Resize (Some src) w h = resizeHorizontal src w)
       \<and> (Dx (Bounds src) = w \<longrightarrow> Resize (Some src) w h = resizeVertical src h)
       \<and> (Dx (Bounds src) = w \<and> Dy (Bounds src) = h \<longrightarrow>
            Resize (Some src) w h =
              Inr (Some (Draw (NewNRGBA (Rect 0 0 w h)) (Rect 0 0 w h) src
                           (MinX (Bounds src), MinY (Bounds src))), None))"
  using assms
  by (auto simp: Resize_def Let_def resizeVertical_copy split: option.splits)

theorem resize_pass_order_witness:
  "Resize (Some (OtherImage (Rect 0 0 4 2) (\<lambda>x y. (0, 0, 0, 0xffff)))) 8 2
     = resizeHorizontal (OtherImage (Rect 0 0 4 2) (\<lambda>x y. (0, 0, 0, 0xffff))) 8
   \<and> Resize (Some (OtherImage (Rect 0 0 4 2) (\<lambda>x y. (0, 0, 0, 0xffff)))) 4 8
     = resizeVertical (OtherImage (Rect 0 0 4 2) (\<lambda>x y. (0, 0, 0, 0xffff))) 8
   \<and> Resize (Some (OtherImage (Rect 0 0 4 2) (\<lambda>x y. (0, 0, 0, 0xffff)))) 4 2
     = Inr (Some (Draw (NewNRGBA (Rect 0 0 4 2)) (Rect 0 0 4 2)
                    (OtherImage (Rect 0 0 4 2) (\<lambda>x y. (0, 0, 0, 0xffff))) (0, 0)), None)"
proof -
  let ?img = "OtherImage (Rect 0 0 4 2) (\<lambda>x y. (0, 0, 0, 0xffff :: 32 word))"
  have d: "Dx (Bounds ?img) = 4" "Dy (Bounds ?img) = 2"
    "MinX (Bounds ?img) = 0" "MinY (Bounds ?img) = 0"
    by (simp_all add: Dx_def Dy_def Rect_def)
  from resize_pass_order [of 8 2 ?img] d
  have a: "Resize (Some ?img) 8 2 = resizeHorizontal ?img 8" by simp
  from resize_pass_order [of 4 8 ?img] d
  have b: "Resize (Some ?img) 4 8 = resizeVertical ?img 8" by simp
  have pos: "(0::int) < 4" "(0::int) < 2" by simp_all
  from resize_pass_order [OF pos, of ?img, THEN conjunct2, THEN conjunct2, THEN conjunct2] d
  have c: "Resize (Some ?img) 4 2
             = Inr (Some (Draw (NewNRGBA (Rect 0 0 4 2)) (Rect 0 0 4 2) ?img (0, 0)), None)"
    by simp
  from a b c show ?thesis by blast
qed

text \<open>
  C10. For every real \<open>v\<close> and every Lanczos radius \<open>R \<ge> 1\<close>, the kernel is
  \<open>sinc \<bar>v\<bar> * sinc (\<bar>v\<bar> / R)\<close> when \<open>\<bar>v\<bar> < R\<close> and \<open>0\<close> when \<open>\<bar>v\<bar> \<ge> R\<close>, where
  \<open>sinc x\<close> is \<open>1\<close> at \<open>x = 0\<close> and \<open>sin (pi * x) / (pi * x)\<close> elsewhere; in particular it
  is \<open>1\<close> at \<open>v = 0\<close> and \<open>0\<close> for all \<open>\<bar>v\<bar> \<ge> R\<close>.
\<close>

theorem lanczos_kernel_formula:
  assumes "1 \<le> R"
  shows "(\<forall>x. sinc x = (if x = 0 then 1 else sin (pi * x) / (pi * x)))
       \<and> Kernel (Lanczos R) v =
           (if \<bar>v\<bar> < real_of_int R then sinc \<bar>v\<bar> * sinc (\<bar>v\<bar> / real_of_int R) else 0)
       \<and> Kernel (Lanczos R) 0 = 1
       \<and> (real_of_int R \<le> \<bar>v\<bar> \<longrightarrow> Kernel (Lanczos R) v = 0)"
  using assms by (simp add: sinc_def Let_def)

theorem lanczos_kernel_formula_witness:
  "Kernel (Lanczos 3) 0 = 1 \<and> Kernel (Lanczos 3) (- 3) = 0
   \<and> Kernel (Lanczos 3) (1 / 2) = sinc (1 / 2) * sinc (1 / 6)"
  using lanczos_kernel_formula [of 3 0] lanczos_kernel_formula [of 3 "- 3"]
    lanczos_kernel_formula [of 3 "1 / 2"]
  by simp

end
